theory Spec2Isabelle
  imports Main "HOL-Library.Word" "HOL-Library.Monad_Syntax" "HOL-Library.Sublist"
begin

unbundle bit_operations_syntax

section \<open>Data model\<close>

text \<open>
  The C types of the driver: \<^verbatim>\<open>uchar\<close> is an 8-bit unsigned value and \<^verbatim>\<open>uint\<close> a
  32-bit unsigned value (the target is a Cortex-M4).
\<close>

type_synonym uchar = "8 word"
type_synonym uint32 = "32 word"

text \<open>
  Modelled from the spec: the header \<^verbatim>\<open>RC522.h\<close> is not among the sources. The outcome
  codes \<^verbatim>\<open>MI_OK\<close>, \<^verbatim>\<open>MI_NOTAGERR\<close> and \<^verbatim>\<open>MI_ERR\<close> are the three pairwise different
  values of the spec's ProtocolOutcome (Ok, NoCardDetected, Error) that the driver returns.
\<close>

datatype mi_status = MI_OK | MI_NOTAGERR | MI_ERR

text \<open>
  The remaining macros of the missing header are parameters of the model: the register
  addresses, the chip and card command bytes, and the buffer length \<^verbatim>\<open>MAX_LEN\<close>.
\<close>

record rc522_h =
  CommandReg :: uchar
  CommIEnReg :: uchar
  CommIrqReg :: uchar
  ErrorReg :: uchar
  FIFODataReg :: uchar
  FIFOLevelReg :: uchar
  ControlReg :: uchar
  BitFramingReg :: uchar
  PCD_IDLE :: uchar
  PCD_AUTHENT :: uchar
  PCD_TRANSCEIVE :: uchar
  PICC_REQIDL :: uchar
  PICC_ANTICOLL :: uchar
  MAX_LEN :: nat

text \<open>
  For concrete runs: the register addresses and command codes of the MFRC522 data sheet, the
  ISO 14443 request and anticollision codes, and the customary \<^verbatim>\<open>MAX_LEN\<close> of 16.
\<close>

definition datasheet_h :: rc522_h where
  "datasheet_h = \<lparr>CommandReg = 0x01, CommIEnReg = 0x02, CommIrqReg = 0x04, ErrorReg = 0x06,
     FIFODataReg = 0x09, FIFOLevelReg = 0x0A, ControlReg = 0x0C, BitFramingReg = 0x0D,
     PCD_IDLE = 0x00, PCD_AUTHENT = 0x0E, PCD_TRANSCEIVE = 0x0C,
     PICC_REQIDL = 0x26, PICC_ANTICOLL = 0x93, MAX_LEN = 16\<rparr>"

subsection \<open>The bus\<close>

text \<open>
  What the driver does to the hardware is a sequence of chip-select changes and bytes
  clocked out; what it learns from the hardware is the byte clocked in by each transfer.
  The chip is the environment: \<open>miso s k\<close> is the byte the \<open>k\<close>-th transfer receives,
  \<open>nxfer s\<close> counts the transfers made so far and \<open>bus s\<close> records, oldest first, what
  the driver put on the wires.
\<close>

datatype GPIO_PinState = GPIO_PIN_RESET | GPIO_PIN_SET

datatype bus_event = CS GPIO_PinState | MOSI uchar

record hw =
  miso :: "nat \<Rightarrow> uchar"
  nxfer :: nat
  bus :: "bus_event list"

definition HAL_GPIO_WritePin_CS :: "GPIO_PinState \<Rightarrow> hw \<Rightarrow> hw" where
  "HAL_GPIO_WritePin_CS p s = s\<lparr>bus := bus s @ [CS p]\<rparr>"

text \<open>
  \<^verbatim>\<open>HAL_SPI_TransmitReceive\<close> clocks one byte out and one byte in. What it leaves in
  \<^verbatim>\<open>rx_data\<close>, after a fault of the bus as well, is the next byte of \<open>miso\<close>.
\<close>

definition RC522_SPI_Transfer :: "uchar \<Rightarrow> hw \<Rightarrow> uchar \<times> hw" where
  "RC522_SPI_Transfer data s =
     (miso s (nxfer s), s\<lparr>nxfer := nxfer s + 1, bus := bus s @ [MOSI data]\<rparr>)"

section \<open>Transport and register access\<close>

text \<open>
  In \<^verbatim>\<open>(addr<<1)&0x7E\<close> the \<^verbatim>\<open>uchar\<close> operand is promoted to \<^verbatim>\<open>int\<close>, shifted and masked
  there, and converted back to \<^verbatim>\<open>uchar\<close> when passed to the transfer.
\<close>

definition Write_MFRC522 :: "uchar \<Rightarrow> uchar \<Rightarrow> hw \<Rightarrow> hw" where
  "Write_MFRC522 addr val s =
     (let s = HAL_GPIO_WritePin_CS GPIO_PIN_RESET s;
          (_, s) = RC522_SPI_Transfer (word_of_int (push_bit 1 (uint addr) AND 0x7E)) s;
          (_, s) = RC522_SPI_Transfer val s
      in HAL_GPIO_WritePin_CS GPIO_PIN_SET s)"

definition Read_MFRC522 :: "uchar \<Rightarrow> hw \<Rightarrow> uchar \<times> hw" where
  "Read_MFRC522 addr s =
     (let s = HAL_GPIO_WritePin_CS GPIO_PIN_RESET s;
          (_, s) = RC522_SPI_Transfer (word_of_int ((push_bit 1 (uint addr) AND 0x7E) OR 0x80)) s;
          (val, s) = RC522_SPI_Transfer 0x00 s;
          s = HAL_GPIO_WritePin_CS GPIO_PIN_SET s
      in (val, s))"

definition SetBitMask :: "uchar \<Rightarrow> uchar \<Rightarrow> hw \<Rightarrow> hw" where
  "SetBitMask reg msk s =
     (let (tmp, s) = Read_MFRC522 reg s in Write_MFRC522 reg (tmp OR msk) s)"

definition ClearBitMask :: "uchar \<Rightarrow> uchar \<Rightarrow> hw \<Rightarrow> hw" where
  "ClearBitMask reg msk s =
     (let (tmp, s) = Read_MFRC522 reg s in Write_MFRC522 reg (tmp AND NOT msk) s)"

section \<open>Arrays and pointers\<close>

text \<open>
  A C array handed over as \<^verbatim>\<open>uchar *\<close> is the list of its bytes, and the length of the
  list is the size of the array. An access outside the array, and a read of a variable
  that was never written, are undefined behaviour in C: the model returns \<open>None\<close> for
  a run that reaches one, and \<open>Some\<close> of the results otherwise.
\<close>

definition load :: "uchar list \<Rightarrow> nat \<Rightarrow> uchar option" where
  "load xs i = (if i < length xs then Some (xs ! i) else None)"

definition store :: "uchar list \<Rightarrow> nat \<Rightarrow> uchar \<Rightarrow> uchar list option" where
  "store xs i v = (if i < length xs then Some (xs[i := v]) else None)"

section \<open>The command exchange \<^verbatim>\<open>MFRC522_ToCard\<close>\<close>

text \<open>
  The \<^verbatim>\<open>switch\<close> on the command: the interrupt sources enabled and the completion flags
  awaited. (Two equal \<^verbatim>\<open>case\<close> labels do not compile, so the order of the tests is
  immaterial.)
\<close>

definition irq_setup :: "rc522_h \<Rightarrow> uchar \<Rightarrow> uchar \<times> uchar" where
  "irq_setup h command =
     (if command = PCD_AUTHENT h then (0x12, 0x10)
      else if command = PCD_TRANSCEIVE h then (0x77, 0x30)
      else (0x00, 0x00))"

text \<open>\<^verbatim>\<open>for (i=0; i<sendLen; i++) Write_MFRC522(FIFODataReg, sendData[i]);\<close>\<close>

function fifo_write :: "rc522_h \<Rightarrow> uchar list \<Rightarrow> uchar \<Rightarrow> nat \<Rightarrow> hw \<Rightarrow> hw option" where
  "fifo_write h sendData sendLen i s =
     (if i < unat sendLen then
        (case load sendData i of
           None \<Rightarrow> None
         | Some b \<Rightarrow> fifo_write h sendData sendLen (i + 1) (Write_MFRC522 (FIFODataReg h) b s))
      else Some s)"
  by pat_completeness auto
termination
  by (relation "measure (\<lambda>(h, sendData, sendLen, i, s). unat sendLen - i)") auto

text \<open>Everything up to the start of the wait: lines 216 to 233.\<close>

definition ToCard_issue :: "rc522_h \<Rightarrow> uchar \<Rightarrow> uchar list \<Rightarrow> uchar \<Rightarrow> hw \<Rightarrow> hw option" where
  "ToCard_issue h command sendData sendLen s =
     (let (irqEn, waitIRq) = irq_setup h command;
          s = Write_MFRC522 (CommIEnReg h) (irqEn OR 0x80) s;
          s = ClearBitMask (CommIrqReg h) 0x80 s;
          s = SetBitMask (FIFOLevelReg h) 0x80 s;
          s = Write_MFRC522 (CommandReg h) (PCD_IDLE h) s
      in do {
        s \<leftarrow> fifo_write h sendData sendLen 0 s;
        let s = Write_MFRC522 (CommandReg h) command s;
        Some (if command = PCD_TRANSCEIVE h then SetBitMask (BitFramingReg h) 0x80 s else s)
      })"

text \<open>
  The wait: \<^verbatim>\<open>do { n = Read_MFRC522(CommIrqReg); i--; } while ((i!=0) && !(n&0x01) && !(n&waitIRq));\<close>
  with the 32-bit counter \<open>i\<close>, which the caller sets to 2000. The result is the counter,
  the last flags read and the hardware after the loop.
\<close>

function ToCard_wait :: "rc522_h \<Rightarrow> uchar \<Rightarrow> uint32 \<Rightarrow> hw \<Rightarrow> uint32 \<times> uchar \<times> hw" where
  "ToCard_wait h waitIRq i s =
     (let (n, s) = Read_MFRC522 (CommIrqReg h) s;
          i = i - 1
      in if i \<noteq> 0 \<and> \<not> (n AND 0x01 \<noteq> 0) \<and> \<not> (n AND waitIRq \<noteq> 0)
         then ToCard_wait h waitIRq i s
         else (i, n, s))"
  by pat_completeness auto
termination
proof (relation "measure (\<lambda>(h, waitIRq, i, s). unat (i - 1))")
  show "wf (measure (\<lambda>(h, waitIRq, i, s). unat (i - 1)))"
    by simp
next
  fix h :: rc522_h and waitIRq n :: uchar and i j :: uint32 and s s' :: hw
  assume "j = i - 1" and "j \<noteq> 0 \<and> \<not> (n AND 0x01 \<noteq> 0) \<and> \<not> (n AND waitIRq \<noteq> 0)"
  then have "i - 1 \<noteq> 0"
    by simp
  then have "unat (i - 1 - 1) = unat (i - 1) - 1" and "0 < unat (i - 1)"
    by (simp_all only: unat_minus_one unat_gt_0 not_False_eq_True)
  then have "unat (i - 1 - 1) < unat (i - 1)"
    by linarith
  with \<open>j = i - 1\<close> show "((h, waitIRq, j, s'), (h, waitIRq, i, s))
      \<in> measure (\<lambda>(h, waitIRq, i, s). unat (i - 1))"
    by simp
qed

text \<open>\<^verbatim>\<open>for (i=0; i<n; i++) backData[i] = Read_MFRC522(FIFODataReg);\<close>\<close>

function fifo_read :: "rc522_h \<Rightarrow> uchar \<Rightarrow> nat \<Rightarrow> uchar list \<Rightarrow> hw \<Rightarrow> (uchar list \<times> hw) option" where
  "fifo_read h n i backData s =
     (if i < unat n then
        (let (b, s) = Read_MFRC522 (FIFODataReg h) s
         in case store backData i b of
              None \<Rightarrow> None
            | Some backData \<Rightarrow> fifo_read h n (i + 1) backData s)
      else Some (backData, s))"
  by pat_completeness auto
termination
  by (relation "measure (\<lambda>(h, n, i, backData, s). unat n - i)") auto

text \<open>
  The received bit count. The \<^verbatim>\<open>uchar\<close> operands are promoted to \<^verbatim>\<open>int\<close>; the result is
  converted to the 32-bit unsigned \<^verbatim>\<open>*backLen\<close>.
\<close>

definition recv_bits :: "uchar \<Rightarrow> uchar \<Rightarrow> uint32" where
  "recv_bits n lastBits =
     (if lastBits \<noteq> 0 then word_of_int ((uint n - 1) * 8 + uint lastBits)
      else word_of_int (uint n * 8))"

text \<open>\<^verbatim>\<open>if (n == 0) n = 1;  if (n > MAX_LEN) n = MAX_LEN;\<close>\<close>

definition clamp_len :: "rc522_h \<Rightarrow> uchar \<Rightarrow> uchar" where
  "clamp_len h n =
     (let n = (if n = 0 then 1 else n)
      in if unat n > MAX_LEN h then of_nat (MAX_LEN h) else n)"

text \<open>The body of \<^verbatim>\<open>if (command == PCD_TRANSCEIVE)\<close>: lines 260 to 284.\<close>

definition ToCard_receive :: "rc522_h \<Rightarrow> uchar list \<Rightarrow> hw \<Rightarrow> (uint32 \<times> uchar list \<times> hw) option" where
  "ToCard_receive h backData s =
     (let (n, s) = Read_MFRC522 (FIFOLevelReg h) s;
          (c, s) = Read_MFRC522 (ControlReg h) s;
          lastBits = c AND 0x07;
          backLen = recv_bits n lastBits;
          n = clamp_len h n
      in do {
        (backData, s) \<leftarrow> fifo_read h n 0 backData s;
        Some (backLen, backData, s)
      })"

text \<open>
  \<^verbatim>\<open>uchar MFRC522_ToCard(uchar command, uchar *sendData, uchar sendLen, uchar *backData, uint *backLen)\<close>.
  \<open>backLen\<close> is the content of the caller's variable \<^verbatim>\<open>*backLen\<close>, \<open>None\<close> while it is
  uninitialised; the result has the status, the array \<^verbatim>\<open>backData\<close>, \<^verbatim>\<open>*backLen\<close> and the
  hardware after the call. All of \<^verbatim>\<open>sendData\<close> is read before \<^verbatim>\<open>backData\<close> is written, so
  a caller that passes one array for both passes the same list twice.
\<close>

definition MFRC522_ToCard ::
  "rc522_h \<Rightarrow> uchar \<Rightarrow> uchar list \<Rightarrow> uchar \<Rightarrow> uchar list \<Rightarrow> uint32 option \<Rightarrow> hw
     \<Rightarrow> (mi_status \<times> uchar list \<times> uint32 option \<times> hw) option" where
  "MFRC522_ToCard h command sendData sendLen backData backLen s =
     (let (irqEn, waitIRq) = irq_setup h command
      in do {
        s \<leftarrow> ToCard_issue h command sendData sendLen s;
        let (i, n, s) = ToCard_wait h waitIRq 2000 s;
        let s = ClearBitMask (BitFramingReg h) 0x80 s;
        if i \<noteq> 0 then
          (let (e, s) = Read_MFRC522 (ErrorReg h) s
           in if \<not> (e AND 0x1B \<noteq> 0) then
                (let status = (if n AND irqEn AND 0x01 \<noteq> 0 then MI_NOTAGERR else MI_OK)
                 in if command = PCD_TRANSCEIVE h then
                      do {
                        (bits, backData, s) \<leftarrow> ToCard_receive h backData s;
                        Some (status, backData, Some bits, s)
                      }
                    else Some (status, backData, backLen, s))
              else Some (MI_ERR, backData, backLen, s))
        else Some (MI_ERR, backData, backLen, s)
      })"

section \<open>Card discovery\<close>

text \<open>
  \<^verbatim>\<open>uchar MFRC522_Request(uchar reqMode, uchar *TagType)\<close>. The local \<^verbatim>\<open>backBits\<close> is
  declared without a value; \<^verbatim>\<open>||\<close> reads it only when the status is \<^verbatim>\<open>MI_OK\<close>.
\<close>

definition MFRC522_Request ::
  "rc522_h \<Rightarrow> uchar \<Rightarrow> uchar list \<Rightarrow> hw \<Rightarrow> (mi_status \<times> uchar list \<times> hw) option" where
  "MFRC522_Request h reqMode TagType s =
     do {
       let s = Write_MFRC522 (BitFramingReg h) 0x07 s;
       TagType \<leftarrow> store TagType 0 reqMode;
       (status, TagType, backBits, s) \<leftarrow>
         MFRC522_ToCard h (PCD_TRANSCEIVE h) TagType 1 TagType None s;
       status \<leftarrow>
         (if status \<noteq> MI_OK then Some MI_ERR
          else case backBits of
                 None \<Rightarrow> None
               | Some b \<Rightarrow> Some (if b \<noteq> 0x10 then MI_ERR else status));
       Some (status, TagType, s)
     }"

text \<open>\<^verbatim>\<open>for (i=0; i<4; i++) serNumCheck ^= serNum[i];\<close> The result has the final \<open>i\<close> too.\<close>

function serNum_xor :: "uchar list \<Rightarrow> nat \<Rightarrow> uchar \<Rightarrow> (nat \<times> uchar) option" where
  "serNum_xor serNum i serNumCheck =
     (if i < 4 then
        (case load serNum i of
           None \<Rightarrow> None
         | Some b \<Rightarrow> serNum_xor serNum (i + 1) (serNumCheck XOR b))
      else Some (i, serNumCheck))"
  by pat_completeness auto
termination
  by (relation "measure (\<lambda>(serNum, i, serNumCheck). 4 - i)") auto

text \<open>\<^verbatim>\<open>uchar MFRC522_Anticoll(uchar *serNum)\<close>\<close>

definition MFRC522_Anticoll ::
  "rc522_h \<Rightarrow> uchar list \<Rightarrow> hw \<Rightarrow> (mi_status \<times> uchar list \<times> hw) option" where
  "MFRC522_Anticoll h serNum s =
     do {
       let s = Write_MFRC522 (BitFramingReg h) 0x00 s;
       serNum \<leftarrow> store serNum 0 (PICC_ANTICOLL h);
       serNum \<leftarrow> store serNum 1 0x20;
       (status, serNum, unLen, s) \<leftarrow>
         MFRC522_ToCard h (PCD_TRANSCEIVE h) serNum 2 serNum None s;
       status \<leftarrow>
         (if status = MI_OK then
            do {
              (i, serNumCheck) \<leftarrow> serNum_xor serNum 0 0;
              b \<leftarrow> load serNum i;
              Some (if serNumCheck \<noteq> b then MI_ERR else status)
            }
          else Some status);
       Some (status, serNum, s)
     }"

section \<open>The result channel\<close>

text \<open>The record of \<^verbatim>\<open>rc522_rtos_task.h\<close> and its two status values.\<close>

record RC522_Data_t =
  uid :: "uchar list"
  uid_length :: uchar
  tagType :: "uchar list"
  status :: uchar

definition RC522_STATUS_SUCCESS :: uchar where
  "RC522_STATUS_SUCCESS = 1"

definition RC522_STATUS_UNSUCCESSFUL :: uchar where
  "RC522_STATUS_UNSUCCESSFUL = 0"

definition RC522_QUEUE_SIZE :: nat where
  "RC522_QUEUE_SIZE = 3"

text \<open>
  Modelled from the spec: the message queue of the RTOS is not among the sources. The
  spec's ResultChannel is a bounded FIFO of fixed capacity that holds copies of the
  records, oldest first.
\<close>

record osMessageQueue =
  msg_count :: nat
  msgs :: "RC522_Data_t list"

datatype osStatus_t = osOK | osErrorResource

text \<open>
  Modelled from the spec: \<^verbatim>\<open>osMessageQueueNew\<close> is not among the sources. A new channel of
  the given capacity holds no record.
\<close>

definition osMessageQueueNew :: "nat \<Rightarrow> osMessageQueue" where
  "osMessageQueueNew n = \<lparr>msg_count = n, msgs = []\<rparr>"

text \<open>
  Modelled from the spec: \<^verbatim>\<open>osMessageQueuePut\<close> is not among the sources. This is the call
  \<^verbatim>\<open>osMessageQueuePut(q, &msg, 0, 0)\<close>, with priority 0 and timeout 0: the spec's enqueue
  is non-blocking, appends the record behind the pending ones, and on a full channel
  discards the new record and returns at once.
\<close>

definition osMessageQueuePut :: "osMessageQueue \<Rightarrow> RC522_Data_t \<Rightarrow> osStatus_t \<times> osMessageQueue" where
  "osMessageQueuePut q msg =
     (if length (msgs q) < msg_count q then (osOK, q\<lparr>msgs := msgs q @ [msg]\<rparr>)
      else (osErrorResource, q))"

text \<open>\<^verbatim>\<open>display_rc522_info_queue\<close> as \<^verbatim>\<open>OLED_Task_Init\<close> creates it.\<close>

definition display_rc522_info_queue :: osMessageQueue where
  "display_rc522_info_queue = osMessageQueueNew RC522_QUEUE_SIZE"

section \<open>The acquisition task\<close>

text \<open>
  One pass of the \<^verbatim>\<open>while (1)\<close> of \<^verbatim>\<open>RC522_Task\<close>, from the \<^verbatim>\<open>memset\<close> to the
  \<^verbatim>\<open>osMessageQueuePut\<close>, on the hardware \<open>s\<close> and the queue \<open>q\<close>; the result is the
  record built, the hardware and the queue at the \<^verbatim>\<open>osDelay\<close>. The debug text sent to the
  UART is formatted from the variables and changes none of them; it is left out.
\<close>

definition RC522_Task_cycle ::
  "rc522_h \<Rightarrow> hw \<Rightarrow> osMessageQueue \<Rightarrow> (RC522_Data_t \<times> hw \<times> osMessageQueue) option" where
  "RC522_Task_cycle h s q =
     do {
       let rc522_data = \<lparr>uid = replicate 10 0, uid_length = 0, tagType = replicate 2 0, status = 0\<rparr>;
       (req_status, tag, s) \<leftarrow> MFRC522_Request h (PICC_REQIDL h) (replicate 2 0) s;
       (anticoll_status, serNum, s) \<leftarrow> MFRC522_Anticoll h (uid rc522_data) s;
       let rc522_data = rc522_data\<lparr>uid := serNum\<rparr>;
       let rc522_data = rc522_data\<lparr>uid_length := (if anticoll_status = MI_OK then 4 else 0)\<rparr>;
       t0 \<leftarrow> load tag 0;
       t1 \<leftarrow> load tag 1;
       let rc522_data = rc522_data\<lparr>tagType := (tagType rc522_data)[0 := t0, 1 := t1]\<rparr>;
       let rc522_data =
         (if req_status = MI_OK \<and> anticoll_status = MI_OK
          then rc522_data\<lparr>status := RC522_STATUS_SUCCESS\<rparr>
          else rc522_data\<lparr>status := RC522_STATUS_UNSUCCESSFUL, uid_length := 0\<rparr>);
       let (_, q) = osMessageQueuePut q rc522_data;
       Some (rc522_data, s, q)
     }"

section \<open>Notions for the statements\<close>

declare fifo_write.simps [simp del] ToCard_wait.simps [simp del] fifo_read.simps [simp del]
  serNum_xor.simps [simp del]

text \<open>
  The hardware after \<open>k\<close> reads of the register \<open>a\<close> in a row, the bytes these reads
  return, and the interrupt flags that the \<open>k\<close>-th round (from 0) of a wait starting
  at \<open>s\<close> reads.
\<close>

fun reads :: "uchar \<Rightarrow> nat \<Rightarrow> hw \<Rightarrow> hw" where
  "reads a 0 s = s"
| "reads a (Suc k) s = reads a k (snd (Read_MFRC522 a s))"

fun read_bytes :: "uchar \<Rightarrow> nat \<Rightarrow> hw \<Rightarrow> uchar list" where
  "read_bytes a 0 s = []"
| "read_bytes a (Suc k) s = fst (Read_MFRC522 a s) # read_bytes a k (snd (Read_MFRC522 a s))"

definition irq_read :: "rc522_h \<Rightarrow> hw \<Rightarrow> nat \<Rightarrow> uchar" where
  "irq_read h s k = fst (Read_MFRC522 (CommIrqReg h) (reads (CommIrqReg h) k s))"

text \<open>What one register write and one register read put on the bus.\<close>

definition write_frame :: "uchar \<Rightarrow> uchar \<Rightarrow> bus_event list" where
  "write_frame a v = [CS GPIO_PIN_RESET, MOSI (push_bit 1 a AND 0x7E), MOSI v, CS GPIO_PIN_SET]"

definition read_frame :: "uchar \<Rightarrow> bus_event list" where
  "read_frame a = [CS GPIO_PIN_RESET, MOSI ((push_bit 1 a AND 0x7E) OR 0x80), MOSI 0x00, CS GPIO_PIN_SET]"

subsection \<open>Concrete chips\<close>

text \<open>
  A chip that was never talked to and answers every transfer with 0, and one that answers
  0 except at the listed transfers. A register read is two transfers and its value comes
  with the second, so the values read sit at odd positions.
\<close>

definition quiet_hw :: hw where
  "quiet_hw = \<lparr>miso = (\<lambda>k. 0), nxfer = 0, bus = []\<rparr>"

definition replies :: "(nat \<times> uchar) list \<Rightarrow> nat \<Rightarrow> uchar" where
  "replies al k = (case map_of al k of Some v \<Rightarrow> v | None \<Rightarrow> 0)"

definition chip :: "(nat \<times> uchar) list \<Rightarrow> hw" where
  "chip al = \<lparr>miso = replies al, nxfer = 0, bus = []\<rparr>"

text \<open>
  The only non-zero answer is \<open>v\<close> at transfer \<open>k\<close>. Transfer 21 is the first read of the
  interrupt flags in a one-byte Transceive exchange, 23 the same inside \<^verbatim>\<open>MFRC522_Request\<close>,
  39 the same in an Authenticate exchange of twelve bytes.
\<close>

definition flag_hw :: "nat \<Rightarrow> uchar \<Rightarrow> hw" where
  "flag_hw k v = chip [(k, v)]"

text \<open>
  A card answers a one-byte Transceive exchange: the first read of the flags shows the
  receive and idle flags, the error register is clear, the FIFO level is 2, the control
  register shows no partial byte, and the FIFO holds \<open>0x04, 0x00\<close>. The same answer
  inside \<^verbatim>\<open>MFRC522_Request\<close>, which makes one register write first.
\<close>

definition card_hw :: hw where
  "card_hw = chip [(21, 0x30), (29, 2), (31, 0), (33, 0x04), (35, 0x00)]"

definition request_hw :: hw where
  "request_hw = chip [(23, 0x30), (31, 2), (35, 0x04), (37, 0x00)]"

text \<open>
  A chip that answers a one-byte Transceive exchange with a FIFO level of 3 and the bytes
  \<open>0x04, 0x00, 0xAA\<close>.
\<close>

definition three_byte_hw :: hw where
  "three_byte_hw = chip [(21, 0x30), (29, 3), (31, 0), (33, 0x04), (35, 0x00), (37, 0xAA)]"

text \<open>
  A card answers \<^verbatim>\<open>MFRC522_Anticoll\<close> with five bytes: the serial number
  \<open>0x12, 0x34, 0x56, 0x78\<close> and its checksum \<open>0x08\<close>.
\<close>

definition anticoll_hw :: hw where
  "anticoll_hw = chip [(25, 0x30), (33, 5), (37, 0x12), (39, 0x34), (41, 0x56), (43, 0x78),
     (45, 0x08)]"

text \<open>
  A whole cycle with that card in the field (the request takes 38 transfers), and a whole
  cycle with no card: in both exchanges the first read of the flags shows the timer flag.
\<close>

definition scenario_A_hw :: hw where
  "scenario_A_hw = chip [(23, 0x30), (31, 2), (35, 0x04), (37, 0x00),
     (63, 0x30), (71, 5), (75, 0x12), (77, 0x34), (79, 0x56), (81, 0x78), (83, 0x08)]"

definition no_card_hw :: hw where
  "no_card_hw = chip [(23, 0x01), (61, 0x01)]"

text \<open>An authentication frame: command, block address, six key bytes, four UID bytes.\<close>

definition auth_frame :: "uchar list" where
  "auth_frame = [0x60, 0x04, 0xFF, 0xFF, 0xFF, 0xFF, 0xFF, 0xFF, 0x12, 0x34, 0x56, 0x78]"

text \<open>The queue of the display task after three records were put and none taken.\<close>

definition not_detected :: RC522_Data_t where
  "not_detected = \<lparr>uid = replicate 10 0, uid_length = 0, tagType = replicate 2 0,
     status = RC522_STATUS_UNSUCCESSFUL\<rparr>"

definition full_queue :: osMessageQueue where
  "full_queue = snd (osMessageQueuePut (snd (osMessageQueuePut (snd (osMessageQueuePut
     display_rc522_info_queue not_detected)) not_detected)) not_detected)"

section \<open>Framing of a register access\<close>

lemma write_address_byte:
  "(word_of_int (push_bit 1 (uint (a :: uchar)) AND 0x7E) :: uchar) = push_bit 1 a AND 0x7E"
  by (simp add: of_int_and_eq of_int_push_bit)

lemma read_address_byte:
  "(word_of_int ((push_bit 1 (uint (a :: uchar)) AND 0x7E) OR 0x80) :: uchar)
     = (push_bit 1 a AND 0x7E) OR 0x80"
  by (simp add: of_int_and_eq of_int_or_eq of_int_push_bit)

lemma Write_MFRC522_eq:
  "Write_MFRC522 addr val s =
     s\<lparr>nxfer := nxfer s + 2,
       bus := bus s @ [CS GPIO_PIN_RESET, MOSI (push_bit 1 addr AND 0x7E), MOSI val,
                       CS GPIO_PIN_SET]\<rparr>"
  unfolding Write_MFRC522_def write_address_byte
  by (simp add: RC522_SPI_Transfer_def HAL_GPIO_WritePin_CS_def)

lemma Read_MFRC522_eq:
  "Read_MFRC522 addr s =
     (miso s (nxfer s + 1),
      s\<lparr>nxfer := nxfer s + 2,
        bus := bus s @ [CS GPIO_PIN_RESET, MOSI ((push_bit 1 addr AND 0x7E) OR 0x80), MOSI 0,
                        CS GPIO_PIN_SET]\<rparr>)"
  unfolding Read_MFRC522_def read_address_byte
  by (simp add: RC522_SPI_Transfer_def HAL_GPIO_WritePin_CS_def)

text \<open>
  C6. A register write puts the address byte \<open>(a << 1) & 0x7E\<close> and then the value on
  the bus; a register read puts \<open>((a << 1) & 0x7E) | 0x80\<close> and then the dummy byte
  \<open>0x00\<close>; both between a chip-select assertion and its release. This holds for every
  8-bit address, so in particular for the register addresses \<open>0 .. 0x3F\<close>.
\<close>

theorem register_access_framing:
  "bus (Write_MFRC522 a v s) =
     bus s @ [CS GPIO_PIN_RESET, MOSI (push_bit 1 a AND 0x7E), MOSI v, CS GPIO_PIN_SET] \<and>
   bus (snd (Read_MFRC522 a s)) =
     bus s @ [CS GPIO_PIN_RESET, MOSI ((push_bit 1 a AND 0x7E) OR 0x80), MOSI 0x00,
              CS GPIO_PIN_SET]"
  by (simp add: Write_MFRC522_eq Read_MFRC522_eq)

section \<open>The command exchange\<close>

text \<open>The two loops with a register read in their body, unfolded by one round.\<close>

lemma ToCard_wait_unfold:
  "ToCard_wait h waitIRq i s =
     (if i - 1 \<noteq> 0 \<and> \<not> (fst (Read_MFRC522 (CommIrqReg h) s) AND 0x01 \<noteq> 0)
         \<and> \<not> (fst (Read_MFRC522 (CommIrqReg h) s) AND waitIRq \<noteq> 0)
      then ToCard_wait h waitIRq (i - 1) (snd (Read_MFRC522 (CommIrqReg h) s))
      else (i - 1, Read_MFRC522 (CommIrqReg h) s))"
  by (subst ToCard_wait.simps) (simp add: split_beta Let_def)

lemma ToCard_wait_induct:
  fixes P :: "rc522_h \<Rightarrow> uchar \<Rightarrow> uint32 \<Rightarrow> hw \<Rightarrow> bool"
  assumes "\<And>h waitIRq i s.
     (i - 1 \<noteq> 0 \<and> \<not> (fst (Read_MFRC522 (CommIrqReg h) s) AND 0x01 \<noteq> 0)
         \<and> \<not> (fst (Read_MFRC522 (CommIrqReg h) s) AND waitIRq \<noteq> 0)
       \<Longrightarrow> P h waitIRq (i - 1) (snd (Read_MFRC522 (CommIrqReg h) s)))
     \<Longrightarrow> P h waitIRq i s"
  shows "P h waitIRq i s"
proof (induction h waitIRq i s rule: ToCard_wait.induct)
  case (1 h waitIRq i s)
  show ?case
    by (rule assms) (rule "1.IH" [OF refl prod.collapse refl])
qed

lemma fifo_read_unfold:
  "fifo_read h n i backData s =
     (if i < unat n then
        (case store backData i (fst (Read_MFRC522 (FIFODataReg h) s)) of
           None \<Rightarrow> None
         | Some backData \<Rightarrow> fifo_read h n (i + 1) backData (snd (Read_MFRC522 (FIFODataReg h) s)))
      else Some (backData, s))"
  by (subst fifo_read.simps) (simp add: split_beta)

lemma fifo_read_induct:
  fixes P :: "rc522_h \<Rightarrow> uchar \<Rightarrow> nat \<Rightarrow> uchar list \<Rightarrow> hw \<Rightarrow> bool"
  assumes "\<And>h n i backData s.
     (\<And>bd. i < unat n \<Longrightarrow> store backData i (fst (Read_MFRC522 (FIFODataReg h) s)) = Some bd
       \<Longrightarrow> P h n (i + 1) bd (snd (Read_MFRC522 (FIFODataReg h) s)))
     \<Longrightarrow> P h n i backData s"
  shows "P h n i backData s"
proof (induction h n i backData s rule: fifo_read.induct)
  case (1 h n i backData s)
  show ?case
    by (rule assms) (rule "1.IH" [OF _ refl prod.collapse])
qed

lemma SetBitMask_eq:
  "SetBitMask a m s = Write_MFRC522 a (miso s (nxfer s + 1) OR m) (snd (Read_MFRC522 a s))"
  by (simp add: SetBitMask_def Read_MFRC522_eq)

lemma ClearBitMask_eq:
  "ClearBitMask a m s = Write_MFRC522 a (miso s (nxfer s + 1) AND NOT m) (snd (Read_MFRC522 a s))"
  by (simp add: ClearBitMask_def Read_MFRC522_eq)

lemma miso_Write [simp]: "miso (Write_MFRC522 a v s) = miso s"
  by (simp add: Write_MFRC522_eq)

lemma miso_Read [simp]: "miso (snd (Read_MFRC522 a s)) = miso s"
  by (simp add: Read_MFRC522_eq)

lemma nxfer_Write [simp]: "nxfer (Write_MFRC522 a v s) = nxfer s + 2"
  by (simp add: Write_MFRC522_eq)

lemma nxfer_Read [simp]: "nxfer (snd (Read_MFRC522 a s)) = nxfer s + 2"
  by (simp add: Read_MFRC522_eq)

lemma fst_Read: "fst (Read_MFRC522 a s) = miso s (nxfer s + 1)"
  by (simp add: Read_MFRC522_eq)

lemma miso_SetBitMask [simp]: "miso (SetBitMask a m s) = miso s"
  by (simp add: SetBitMask_eq)

lemma miso_ClearBitMask [simp]: "miso (ClearBitMask a m s) = miso s"
  by (simp add: ClearBitMask_eq)

lemma nxfer_SetBitMask [simp]: "nxfer (SetBitMask a m s) = nxfer s + 4"
  by (simp add: SetBitMask_eq)

lemma nxfer_ClearBitMask [simp]: "nxfer (ClearBitMask a m s) = nxfer s + 4"
  by (simp add: ClearBitMask_eq)

lemma miso_reads [simp]: "miso (reads a k s) = miso s"
  by (induction k arbitrary: s) simp_all

lemma nxfer_reads [simp]: "nxfer (reads a k s) = nxfer s + 2 * k"
  by (induction k arbitrary: s) simp_all

lemma reads_Suc_right: "reads a (Suc k) s = snd (Read_MFRC522 a (reads a k s))"
  by (induction k arbitrary: s) simp_all

lemma irq_read_eq: "irq_read h s k = miso s (nxfer s + 2 * k + 1)"
  by (simp add: irq_read_def fst_Read)

lemma irq_read_shift: "irq_read h (snd (Read_MFRC522 (CommIrqReg h) s)) k = irq_read h s (Suc k)"
  by (simp add: irq_read_def fst_Read)

lemma fifo_write_Some:
  "unat sendLen \<le> length sendData \<Longrightarrow> \<exists>s'. fifo_write h sendData sendLen i s = Some s' \<and> miso s' = miso s
     \<and> nxfer s' = nxfer s + 2 * (unat sendLen - i)"
proof (induction h sendData sendLen i s rule: fifo_write.induct)
  case (1 h sendData sendLen i s)
  show ?case
  proof (cases "i < unat sendLen")
    case True
    then have l: "load sendData i = Some (sendData ! i)"
      using "1.prems" by (simp add: load_def)
    from "1.IH" [OF True l "1.prems"] True l show ?thesis
      by (subst fifo_write.simps) (auto simp add: algebra_simps Suc_diff_Suc)
  next
    case False
    then show ?thesis
      by (subst fifo_write.simps) simp
  qed
qed

lemma ToCard_issue_Some:
  assumes "unat sendLen \<le> length sendData"
  shows "\<exists>s'. ToCard_issue h command sendData sendLen s = Some s' \<and> miso s' = miso s
     \<and> nxfer s' = nxfer s + 2 * unat sendLen + (if command = PCD_TRANSCEIVE h then 18 else 14)"
proof -
  let ?s0 = "Write_MFRC522 (CommandReg h) (PCD_IDLE h)
    (SetBitMask (FIFOLevelReg h) 0x80 (ClearBitMask (CommIrqReg h) 0x80
      (Write_MFRC522 (CommIEnReg h) (fst (irq_setup h command) OR 0x80) s)))"
  obtain s1 where s1: "fifo_write h sendData sendLen 0 ?s0 = Some s1" "miso s1 = miso ?s0"
      "nxfer s1 = nxfer ?s0 + 2 * (unat sendLen - 0)"
    using fifo_write_Some [OF assms] by blast
  then show ?thesis
    by (simp add: ToCard_issue_def split_beta Let_def)
qed

lemma wait_exhausted:
  "i \<noteq> 0 \<Longrightarrow> unat i = Suc m \<Longrightarrow>
   (\<forall>k<m. irq_read h s k AND 0x01 = 0 \<and> irq_read h s k AND waitIRq = 0) \<Longrightarrow>
   ToCard_wait h waitIRq i s = (0, irq_read h s m, reads (CommIrqReg h) (Suc m) s)"
proof (induction m arbitrary: i s)
  case 0
  then have "i = 1"
    by (metis One_nat_def unat_1 word_unat_eq_iff)
  then show ?case
    by (simp add: ToCard_wait_unfold [of h waitIRq 1 s] irq_read_def prod_eq_iff)
next
  case (Suc m)
  let ?s = "snd (Read_MFRC522 (CommIrqReg h) s)"
  have i1: "i - 1 \<noteq> 0" "unat (i - 1) = Suc m"
    using Suc.prems(1,2) by (auto simp add: unat_minus_one unat_eq_zero)
  have q0: "irq_read h s 0 AND 0x01 = 0 \<and> irq_read h s 0 AND waitIRq = 0"
    using Suc.prems(3) by simp
  have rest: "\<forall>k<m. irq_read h ?s k AND 0x01 = 0 \<and> irq_read h ?s k AND waitIRq = 0"
    using Suc.prems(3) by (simp add: irq_read_shift)
  have "ToCard_wait h waitIRq i s = ToCard_wait h waitIRq (i - 1) ?s"
    using i1 q0 by (subst ToCard_wait_unfold) (simp add: irq_read_def)
  also have "\<dots> = (0, irq_read h ?s m, reads (CommIrqReg h) (Suc m) ?s)"
    by (rule Suc.IH [OF i1 rest])
  finally show ?case
    by (simp add: irq_read_shift)
qed

lemma wait_2000_exhausted:
  assumes "\<forall>k<1999. irq_read h s k AND 0x01 = 0 \<and> irq_read h s k AND waitIRq = 0"
  shows "ToCard_wait h waitIRq 2000 s = (0, irq_read h s 1999, reads (CommIrqReg h) 2000 s)"
proof -
  have "ToCard_wait h waitIRq 2000 s = (0, irq_read h s 1999, reads (CommIrqReg h) (Suc 1999) s)"
    by (rule wait_exhausted) (use assms in simp_all)
  then show ?thesis by simp
qed

text \<open>
  C3. Whatever the command: when none of the 2000 reads of the interrupt flags shows the
  timer flag or an awaited completion flag, the wait ends after exactly these 2000 reads
  with the counter at 0, and \<^verbatim>\<open>MFRC522_ToCard\<close> returns \<^verbatim>\<open>MI_ERR\<close>, the value it also
  returns for a set error bit, never \<^verbatim>\<open>MI_OK\<close>; the caller's buffer and bit count are as
  they were.
\<close>

theorem budget_exhausted_is_error:
  assumes "ToCard_issue h command sendData sendLen s = Some s1"
    and "\<forall>k<2000. irq_read h s1 k AND 0x01 = 0 \<and> irq_read h s1 k AND snd (irq_setup h command) = 0"
  shows "MFRC522_ToCard h command sendData sendLen backData backLen s =
     Some (MI_ERR, backData, backLen,
           ClearBitMask (BitFramingReg h) 0x80 (reads (CommIrqReg h) 2000 s1))"
proof -
  have "ToCard_wait h (snd (irq_setup h command)) 2000 s1 =
      (0, irq_read h s1 1999, reads (CommIrqReg h) 2000 s1)"
    by (rule wait_2000_exhausted) (use assms(2) in simp)
  with assms(1) show ?thesis
    by (simp add: MFRC522_ToCard_def split_beta)
qed

theorem budget_exhausted_is_error_witness:
  "\<exists>s'. MFRC522_ToCard datasheet_h 0x0C [0x26, 0] 1 [0x26, 0] None quiet_hw =
     Some (MI_ERR, [0x26, 0], None, s') \<and> nxfer s' = 4024"
proof -
  obtain s1 where s1: "ToCard_issue datasheet_h 0x0C [0x26, 0] 1 quiet_hw = Some s1"
      "miso s1 = miso quiet_hw"
      "nxfer s1 = nxfer quiet_hw + 2 * unat (1 :: uchar)
         + (if (0x0C :: uchar) = PCD_TRANSCEIVE datasheet_h then 18 else 14)"
    using ToCard_issue_Some [where sendLen = 1 and sendData = "[0x26, 0]" and h = datasheet_h
        and command = "0x0C" and s = quiet_hw]
    by auto
  have q: "\<forall>k<2000. irq_read datasheet_h s1 k AND 0x01 = 0
      \<and> irq_read datasheet_h s1 k AND snd (irq_setup datasheet_h 0x0C) = 0"
    by (simp add: irq_read_eq s1 quiet_hw_def)
  show ?thesis
    using budget_exhausted_is_error [OF s1(1) q, where backData = "[0x26, 0]" and backLen = None] s1(3)
    by (simp add: quiet_hw_def datasheet_h_def)
qed

subsection \<open>The receive phase\<close>

text \<open>
  The read loop fills the front of the buffer with the bytes of the FIFO when the buffer
  holds the count, and leaves the array otherwise.
\<close>

lemma fifo_read_eq:
  "unat n \<le> length backData \<Longrightarrow> i \<le> unat n \<Longrightarrow>
   fifo_read h n i backData s =
     Some (take i backData @ read_bytes (FIFODataReg h) (unat n - i) s @ drop (unat n) backData,
           reads (FIFODataReg h) (unat n - i) s)"
proof (induction h n i backData s rule: fifo_read_induct)
  case (1 h n i backData s)
  show ?case
  proof (cases "i < unat n")
    case True
    let ?v = "fst (Read_MFRC522 (FIFODataReg h) s)"
    have st: "store backData i ?v = Some (backData[i := ?v])"
      using True "1.prems" by (simp add: store_def)
    have k: "unat n - i = Suc (unat n - (i + 1))"
      using True by simp
    have "fifo_read h n i backData s =
        fifo_read h n (i + 1) (backData[i := ?v]) (snd (Read_MFRC522 (FIFODataReg h) s))"
      using True st by (subst fifo_read_unfold) simp
    also have "\<dots> = Some (take (i + 1) (backData[i := ?v])
         @ read_bytes (FIFODataReg h) (unat n - (i + 1)) (snd (Read_MFRC522 (FIFODataReg h) s))
         @ drop (unat n) (backData[i := ?v]),
        reads (FIFODataReg h) (unat n - (i + 1)) (snd (Read_MFRC522 (FIFODataReg h) s)))"
      using True "1.prems" by (intro "1.IH" [OF True st]) simp_all
    also have "take (i + 1) (backData[i := ?v]) = take i backData @ [?v]"
      using True "1.prems" by (simp add: take_Suc_conv_app_nth)
    also have "drop (unat n) (backData[i := ?v]) = drop (unat n) backData"
      using True by (simp add: drop_update_cancel)
    finally show ?thesis
      by (simp only: k read_bytes.simps reads.simps append_Cons append_Nil append_assoc)
  next
    case False
    with "1.prems" show ?thesis
      by (subst fifo_read_unfold) simp
  qed
qed

lemma fifo_read_None:
  "length backData < unat n \<Longrightarrow> i \<le> length backData \<Longrightarrow> fifo_read h n i backData s = None"
proof (induction h n i backData s rule: fifo_read_induct)
  case (1 h n i backData s)
  show ?case
  proof (cases "i < length backData")
    case True
    let ?v = "fst (Read_MFRC522 (FIFODataReg h) s)"
    have st: "store backData i ?v = Some (backData[i := ?v])"
      using True by (simp add: store_def)
    have lt: "i < unat n"
      using True "1.prems" by simp
    have "fifo_read h n i backData s =
        fifo_read h n (i + 1) (backData[i := ?v]) (snd (Read_MFRC522 (FIFODataReg h) s))"
      using lt st by (subst fifo_read_unfold) simp
    also have "\<dots> = None"
      using True "1.prems" by (intro "1.IH" [OF lt st]) simp_all
    finally show ?thesis .
  next
    case False
    with "1.prems" show ?thesis
      by (subst fifo_read_unfold) (simp add: store_def)
  qed
qed

lemma clamp_len_eq: "unat (clamp_len h n) = min (max (unat n) 1) (MAX_LEN h)"
proof (cases "n = 0")
  case True
  then show ?thesis
    by (cases "MAX_LEN h = 0") (simp_all add: clamp_len_def)
next
  case False
  then have pos: "0 < unat n"
    by (simp add: unat_gt_0)
  have "unat n < 2 ^ LENGTH(8)"
    by (rule unsigned_less)
  then have lt: "unat n < 256"
    by simp
  show ?thesis
  proof (cases "MAX_LEN h < unat n")
    case True
    then have "unat (of_nat (MAX_LEN h) :: uchar) = MAX_LEN h"
      using lt by (simp add: unat_of_nat)
    with True False pos show ?thesis
      by (simp add: clamp_len_def)
  next
    case False
    with \<open>n \<noteq> 0\<close> pos show ?thesis
      by (simp add: clamp_len_def)
  qed
qed

lemma recv_bits_word:
  "recv_bits n l = (if l \<noteq> 0 then (ucast n - 1) * 8 + ucast l else ucast n * 8)"
  by (simp add: recv_bits_def)

lemma recv_bits_nat:
  assumes "n \<noteq> 0 \<or> l = 0"
  shows "unat (recv_bits n l) = (if l \<noteq> 0 then (unat n - 1) * 8 + unat l else unat n * 8)"
proof -
  have "unat n < 2 ^ LENGTH(8)" and "unat l < 2 ^ LENGTH(8)"
    by (rule unsigned_less)+
  then have n: "unat n < 256" and l: "unat l < 256"
    by simp_all
  have un: "uint n = int (unat n)" and ul: "uint l = int (unat l)"
    by simp_all
  show ?thesis
  proof (cases "l = 0")
    case True
    have "unat (word_of_int (int (unat n * 8)) :: uint32) = unat n * 8"
      using n by (simp only: of_int_of_nat_eq unat_of_nat) simp
    with True show ?thesis
      by (simp add: recv_bits_def)
  next
    case False
    with assms have "0 < unat n"
      by (simp add: unat_gt_0)
    then have e: "(uint n - 1) * 8 + uint l = int ((unat n - 1) * 8 + unat l)"
      by (simp add: of_nat_diff)
    have "unat (word_of_int (int ((unat n - 1) * 8 + unat l)) :: uint32) = (unat n - 1) * 8 + unat l"
      using n l by (simp only: of_int_of_nat_eq unat_of_nat) simp
    with False e show ?thesis
      by (simp add: recv_bits_def)
  qed
qed

lemma ToCard_receive_eq:
  assumes "Read_MFRC522 (FIFOLevelReg h) s = (n, s1)"
    and "Read_MFRC522 (ControlReg h) s1 = (c, s2)"
    and "unat (clamp_len h n) \<le> length backData"
  shows "ToCard_receive h backData s =
     Some (recv_bits n (c AND 0x07),
           read_bytes (FIFODataReg h) (unat (clamp_len h n)) s2 @ drop (unat (clamp_len h n)) backData,
           reads (FIFODataReg h) (unat (clamp_len h n)) s2)"
  using assms fifo_read_eq [of "clamp_len h n" backData 0 h s2]
  by (simp add: ToCard_receive_def)

lemma ToCard_receive_None:
  assumes "Read_MFRC522 (FIFOLevelReg h) s = (n, s1)"
    and "length backData < unat (clamp_len h n)"
  shows "ToCard_receive h backData s = None"
  using assms fifo_read_None [of backData "clamp_len h n" 0 h]
  by (simp add: ToCard_receive_def split_beta)


lemmas run_defs =
  MFRC522_ToCard_def ToCard_issue_def ToCard_receive_def irq_setup_def datasheet_h_def
  store_def load_def Read_MFRC522_eq Write_MFRC522_eq SetBitMask_def ClearBitMask_def
  fifo_write.simps fifo_read_unfold ToCard_wait_unfold replies_def chip_def recv_bits_def
  clamp_len_def

text \<open>
  C7 as stated fails: the count is not cut to the capacity of the caller's buffer. The
  chip reports three bytes. With a buffer of sixteen bytes the exchange reports 24 bits and
  stores the three bytes. With the buffer of two bytes that \<^verbatim>\<open>RC522_Task\<close> hands to
  \<^verbatim>\<open>MFRC522_Request\<close> the count stays 3, since \<open>3 \<le> MAX_LEN\<close>, and the third byte is
  stored outside the array.
\<close>

theorem small_buffer_counterexample:
  "clamp_len datasheet_h 3 = 3 \<and>
   map_option (fst \<circ> snd) (MFRC522_ToCard datasheet_h (PCD_TRANSCEIVE datasheet_h)
     [0x26, 0, 0, 0, 0, 0, 0, 0, 0, 0, 0, 0, 0, 0, 0, 0] 1
     [0x26, 0, 0, 0, 0, 0, 0, 0, 0, 0, 0, 0, 0, 0, 0, 0] None three_byte_hw) =
     Some [0x04, 0x00, 0xAA, 0, 0, 0, 0, 0, 0, 0, 0, 0, 0, 0, 0, 0] \<and>
   map_option (fst \<circ> snd \<circ> snd) (MFRC522_ToCard datasheet_h (PCD_TRANSCEIVE datasheet_h)
     [0x26, 0, 0, 0, 0, 0, 0, 0, 0, 0, 0, 0, 0, 0, 0, 0] 1
     [0x26, 0, 0, 0, 0, 0, 0, 0, 0, 0, 0, 0, 0, 0, 0, 0] None three_byte_hw) =
     Some (Some 24) \<and>
   length [0x26, 0 :: uchar] = 2 \<and>
   MFRC522_ToCard datasheet_h (PCD_TRANSCEIVE datasheet_h) [0x26, 0] 1 [0x26, 0] None
     three_byte_hw = None"
  by (simp add: run_defs three_byte_hw_def)

text \<open>
  C7, amended. A Transceive exchange whose wait ended with budget left and whose error
  register shows none of the bits \<open>0x1B\<close>: with \<open>n\<close> read from the FIFO level register
  and \<open>lastBits\<close> the low three bits of the control register, the bit count reported is
  \<open>(n-1)*8 + lastBits\<close> if \<open>lastBits \<noteq> 0\<close> and \<open>n*8\<close> otherwise (in the 32-bit
  arithmetic of \<^verbatim>\<open>uint\<close>; it is the same number over the naturals when \<open>n \<noteq> 0\<close>);
  \<open>n\<close> is raised to at least 1 and then cut to the constant \<^verbatim>\<open>MAX_LEN\<close>, whatever the
  caller's buffer is; when the buffer holds that many bytes, exactly that many are read
  from the FIFO data register into its front.
\<close>

theorem transceive_receive:
  assumes "ToCard_issue h (PCD_TRANSCEIVE h) sendData sendLen s = Some s1"
    and "ToCard_wait h (snd (irq_setup h (PCD_TRANSCEIVE h))) 2000 s1 = (i, fl, s2)"
    and "i \<noteq> 0"
    and "Read_MFRC522 (ErrorReg h) (ClearBitMask (BitFramingReg h) 0x80 s2) = (e, s3)"
    and "e AND 0x1B = 0"
    and "Read_MFRC522 (FIFOLevelReg h) s3 = (n, s4)"
    and "Read_MFRC522 (ControlReg h) s4 = (c, s5)"
    and "lastBits = c AND 0x07"
    and "m = min (max (unat n) 1) (MAX_LEN h)"
    and "m \<le> length backData"
  shows "\<exists>st bits.
     MFRC522_ToCard h (PCD_TRANSCEIVE h) sendData sendLen backData backLen s =
       Some (st, read_bytes (FIFODataReg h) m s5 @ drop m backData, Some bits,
             reads (FIFODataReg h) m s5) \<and>
     bits = (if lastBits \<noteq> 0 then (ucast n - 1) * 8 + ucast lastBits else ucast n * 8) \<and>
     (n \<noteq> 0 \<longrightarrow>
        unat bits = (if lastBits \<noteq> 0 then (unat n - 1) * 8 + unat lastBits else unat n * 8))"
proof -
  have m: "unat (clamp_len h n) = m"
    using assms(9) by (simp add: clamp_len_eq)
  have r: "ToCard_receive h backData s3 =
      Some (recv_bits n lastBits, read_bytes (FIFODataReg h) m s5 @ drop m backData,
            reads (FIFODataReg h) m s5)"
    using ToCard_receive_eq [OF assms(6,7)] assms(8,10) m by simp
  have "\<exists>st. MFRC522_ToCard h (PCD_TRANSCEIVE h) sendData sendLen backData backLen s =
       Some (st, read_bytes (FIFODataReg h) m s5 @ drop m backData, Some (recv_bits n lastBits),
             reads (FIFODataReg h) m s5)"
    unfolding MFRC522_ToCard_def
    by (simp add: assms(1-5) r split_beta)
  moreover have "recv_bits n lastBits =
      (if lastBits \<noteq> 0 then (ucast n - 1) * 8 + ucast lastBits else ucast n * 8)"
    by (rule recv_bits_word)
  moreover have "n \<noteq> 0 \<longrightarrow> unat (recv_bits n lastBits) =
      (if lastBits \<noteq> 0 then (unat n - 1) * 8 + unat lastBits else unat n * 8)"
    using recv_bits_nat [of n lastBits] by blast
  ultimately show ?thesis
    by blast
qed

lemma read_bytes_2:
  "read_bytes a 2 s = [fst (Read_MFRC522 a s), fst (Read_MFRC522 a (snd (Read_MFRC522 a s)))]"
  by (simp add: numeral_2_eq_2)

theorem transceive_receive_witness:
  "\<exists>st s'. MFRC522_ToCard datasheet_h 0x0C [0x26, 0] 1 [0x26, 0] None card_hw =
     Some (st, [0x04, 0x00], Some 16, s')"
proof -
  let ?h = datasheet_h
  let ?s1 = "the (ToCard_issue ?h (PCD_TRANSCEIVE ?h) [0x26, 0] 1 card_hw)"
  let ?w = "ToCard_wait ?h (snd (irq_setup ?h (PCD_TRANSCEIVE ?h))) 2000 ?s1"
  let ?r3 = "Read_MFRC522 (ErrorReg ?h) (ClearBitMask (BitFramingReg ?h) 0x80 (snd (snd ?w)))"
  let ?r4 = "Read_MFRC522 (FIFOLevelReg ?h) (snd ?r3)"
  let ?r5 = "Read_MFRC522 (ControlReg ?h) (snd ?r4)"
  have 1: "ToCard_issue ?h (PCD_TRANSCEIVE ?h) [0x26, 0] 1 card_hw = Some ?s1"
    by (simp add: run_defs)
  have 2: "?w = (fst ?w, fst (snd ?w), snd (snd ?w))"
    by (simp only: prod.collapse)
  have 3: "fst ?w \<noteq> 0"
    by (simp add: run_defs card_hw_def)
  have 4: "?r3 = (fst ?r3, snd ?r3)" and 6: "?r4 = (fst ?r4, snd ?r4)" and 7: "?r5 = (fst ?r5, snd ?r5)"
    by (simp_all only: prod.collapse)
  have 5: "fst ?r3 AND 0x1B = 0"
    by (simp add: run_defs card_hw_def)
  have n: "fst ?r4 = 2" 
    by (simp add: run_defs card_hw_def)
  have c: "fst ?r5 = 0"
    by (simp add: run_defs card_hw_def)
  have m: "min (max (unat (fst ?r4)) 1) (MAX_LEN ?h) = 2"
    by (simp add: n) (simp add: datasheet_h_def)
  have 10: "2 \<le> length [0x26, 0 :: uchar]"
    by simp
  have "read_bytes (FIFODataReg ?h) 2 (snd ?r5) =
      [fst (Read_MFRC522 (FIFODataReg ?h) (snd ?r5)),
       fst (Read_MFRC522 (FIFODataReg ?h) (snd (Read_MFRC522 (FIFODataReg ?h) (snd ?r5))))]"
    by (simp only: read_bytes_2)
  also have "\<dots> = [0x04, 0x00]"
    by (simp add: run_defs card_hw_def)
  finally have b: "read_bytes (FIFODataReg ?h) 2 (snd ?r5) = [0x04, 0x00]" .
  have t: "PCD_TRANSCEIVE ?h = 0x0C"
    by (simp add: datasheet_h_def)
  from transceive_receive [OF 1 2 3 4 5 6 7 refl m [symmetric] 10, where backLen = None]
  obtain st bits where
    r: "MFRC522_ToCard ?h (PCD_TRANSCEIVE ?h) [0x26, 0] 1 [0x26, 0] None card_hw =
       Some (st, read_bytes (FIFODataReg ?h) 2 (snd ?r5) @ drop 2 [0x26, 0], Some bits,
             reads (FIFODataReg ?h) 2 (snd ?r5))"
    and bits: "bits = (if fst ?r5 AND 0x07 \<noteq> 0
       then (ucast (fst ?r4) - 1) * 8 + ucast (fst ?r5 AND 0x07) else ucast (fst ?r4) * 8)"
    by blast
  have "bits = 16"
    unfolding bits n c by simp
  with r b show ?thesis
    by (simp add: t)
qed

subsection \<open>Outcomes\<close>

text \<open>
  With a send array of at least \<open>sendLen\<close> bytes and a receive array of at least
  \<^verbatim>\<open>MAX_LEN\<close> bytes every access of the exchange is inside its array.
\<close>

lemma ToCard_defined:
  assumes "unat sendLen \<le> length sendData" and "MAX_LEN h \<le> length backData"
  shows "\<exists>r. MFRC522_ToCard h command sendData sendLen backData backLen s = Some r"
proof -
  obtain s1 where s1: "ToCard_issue h command sendData sendLen s = Some s1"
    using ToCard_issue_Some [OF assms(1)] by blast
  have rc: "\<exists>r. ToCard_receive h backData s3 = Some r" for s3
  proof -
    have "unat (clamp_len h (fst (Read_MFRC522 (FIFOLevelReg h) s3))) \<le> length backData"
      using assms(2) by (simp add: clamp_len_eq)
    then show ?thesis
      using ToCard_receive_eq [OF prod.collapse [symmetric] prod.collapse [symmetric]] by blast
  qed
  show ?thesis
  proof (cases "command = PCD_TRANSCEIVE h")
    case True
    obtain bits bd s4 where "ToCard_receive h backData (snd (Read_MFRC522 (ErrorReg h)
        (ClearBitMask (BitFramingReg h) 0x80
          (snd (snd (ToCard_wait h (snd (irq_setup h (PCD_TRANSCEIVE h))) 2000 s1)))))) =
        Some (bits, bd, s4)"
      using rc by (metis prod_cases3)
    with s1 True show ?thesis
      unfolding MFRC522_ToCard_def by (simp add: split_beta Let_def)
  next
    case False
    with s1 show ?thesis
      unfolding MFRC522_ToCard_def by (simp add: split_beta Let_def)
  qed
qed

text \<open>A set error bit gives \<^verbatim>\<open>MI_ERR\<close> and leaves the caller's buffer and bit count alone.\<close>

lemma error_bits_is_error:
  assumes "ToCard_issue h command sendData sendLen s = Some s1"
    and "ToCard_wait h (snd (irq_setup h command)) 2000 s1 = (i, fl, s2)"
    and "i \<noteq> 0"
    and "Read_MFRC522 (ErrorReg h) (ClearBitMask (BitFramingReg h) 0x80 s2) = (e, s3)"
    and "e AND 0x1B \<noteq> 0"
  shows "MFRC522_ToCard h command sendData sendLen backData backLen s =
     Some (MI_ERR, backData, backLen, s3)"
  unfolding MFRC522_ToCard_def
  by (simp add: assms split_beta)

text \<open>
  C4 as stated fails for the Authenticate command. An authentication frame is sent; the first
  read of the interrupt flags shows the timer flag (\<open>0x01\<close>) and nothing else, so the wait
  ends with 1999 of its 2000 rounds left, and the error register reads 0. The mask
  \<open>irqEn = 0x12\<close> of this command has bit 0 clear, the test \<^verbatim>\<open>n & irqEn & 0x01\<close> fails, and
  the status stays \<^verbatim>\<open>MI_OK\<close>.
\<close>

theorem authent_timer_expiry_counterexample:
  "fst (ToCard_wait datasheet_h (snd (irq_setup datasheet_h (PCD_AUTHENT datasheet_h))) 2000
         (the (ToCard_issue datasheet_h (PCD_AUTHENT datasheet_h) auth_frame 12 (flag_hw 39 0x01))))
     = 1999 \<and>
   fst (snd (ToCard_wait datasheet_h (snd (irq_setup datasheet_h (PCD_AUTHENT datasheet_h))) 2000
         (the (ToCard_issue datasheet_h (PCD_AUTHENT datasheet_h) auth_frame 12 (flag_hw 39 0x01)))))
     = 0x01 \<and>
   fst (Read_MFRC522 (ErrorReg datasheet_h) (ClearBitMask (BitFramingReg datasheet_h) 0x80
     (snd (snd (ToCard_wait datasheet_h (snd (irq_setup datasheet_h (PCD_AUTHENT datasheet_h))) 2000
         (the (ToCard_issue datasheet_h (PCD_AUTHENT datasheet_h) auth_frame 12 (flag_hw 39 0x01))))))))
     = 0x00 \<and>
   map_option fst (MFRC522_ToCard datasheet_h (PCD_AUTHENT datasheet_h) auth_frame 12 auth_frame None
     (flag_hw 39 0x01)) = Some MI_OK"
  by (simp add: run_defs auth_frame_def flag_hw_def)

text \<open>
  C4, amended. When the wait ends with budget left and the timer flag set, and the error
  register shows none of the bits \<open>0x1B\<close>, the status returned is \<^verbatim>\<open>MI_NOTAGERR\<close> for the
  Transceive command, and \<^verbatim>\<open>MI_OK\<close> for the Authenticate command and every other command
  byte, whose interrupt mask does not contain the timer bit.
\<close>

theorem timer_expiry_outcome:
  assumes "PCD_AUTHENT h \<noteq> PCD_TRANSCEIVE h"
    and "ToCard_issue h command sendData sendLen s = Some s1"
    and "ToCard_wait h (snd (irq_setup h command)) 2000 s1 = (i, fl, s2)"
    and "i \<noteq> 0"
    and "fl AND 0x01 \<noteq> 0"
    and "fst (Read_MFRC522 (ErrorReg h) (ClearBitMask (BitFramingReg h) 0x80 s2)) AND 0x1B = 0"
    and "MFRC522_ToCard h command sendData sendLen backData backLen s = Some (st, bd, bl, s')"
  shows "st = (if command = PCD_TRANSCEIVE h then MI_NOTAGERR else MI_OK)"
proof (cases "command = PCD_TRANSCEIVE h")
  case True
  then have "fst (irq_setup h command) = 0x77"
    using assms(1) by (simp add: irq_setup_def)
  then have "fl AND fst (irq_setup h command) AND 0x01 = fl AND 0x01"
    by (simp add: and.assoc)
  with assms(2-7) True show ?thesis
    unfolding MFRC522_ToCard_def
    by (auto simp add: split_beta Let_def split: if_splits bind_splits)
next
  case False
  then have "fst (irq_setup h command) AND 0x01 = 0"
    by (simp add: irq_setup_def)
  then have "fl AND fst (irq_setup h command) AND 0x01 = 0"
    by (simp add: and.assoc)
  with assms(2-7) False show ?thesis
    unfolding MFRC522_ToCard_def
    by (auto simp add: split_beta Let_def split: if_splits)
qed


theorem timer_expiry_outcome_witness:
  "\<exists>bd bl s'. MFRC522_ToCard datasheet_h (PCD_TRANSCEIVE datasheet_h) [0x26, 0] 1 [0x26, 0] None
     (flag_hw 21 0x01) = Some (MI_NOTAGERR, bd, bl, s')"
proof -
  let ?h = datasheet_h
  let ?c = "PCD_TRANSCEIVE ?h"
  let ?s1 = "the (ToCard_issue ?h ?c [0x26, 0] 1 (flag_hw 21 0x01))"
  let ?w = "ToCard_wait ?h (snd (irq_setup ?h ?c)) 2000 ?s1"
  have d: "PCD_AUTHENT ?h \<noteq> PCD_TRANSCEIVE ?h"
    by (simp add: datasheet_h_def)
  have 1: "ToCard_issue ?h ?c [0x26, 0] 1 (flag_hw 21 0x01) = Some ?s1"
    by (simp add: run_defs)
  have 2: "?w = (fst ?w, fst (snd ?w), snd (snd ?w))"
    by (simp only: prod.collapse)
  have 3: "fst ?w \<noteq> 0"
    by (simp add: run_defs flag_hw_def)
  have 4: "fst (snd ?w) AND 0x01 \<noteq> 0"
    by (simp add: run_defs flag_hw_def)
  have 5: "fst (Read_MFRC522 (ErrorReg ?h) (ClearBitMask (BitFramingReg ?h) 0x80 (snd (snd ?w))))
      AND 0x1B = 0"
    by (simp add: run_defs flag_hw_def)
  have "MFRC522_ToCard ?h ?c [0x26, 0] 1 [0x26, 0] None (flag_hw 21 0x01) \<noteq> None"
    by (simp add: run_defs flag_hw_def)
  then obtain st bd bl s' where
    r: "MFRC522_ToCard ?h ?c [0x26, 0] 1 [0x26, 0] None (flag_hw 21 0x01) = Some (st, bd, bl, s')"
    by (metis not_None_eq prod_cases4)
  from timer_expiry_outcome [OF d 1 2 3 4 5 r] have "st = MI_NOTAGERR"
    by simp
  with r show ?thesis
    by blast
qed

text \<open>
  C10. \<^verbatim>\<open>*backLen\<close> is written on one path only: the command is Transceive, the wait ended
  with budget left, and the error register shows none of the bits \<open>0x1B\<close>; there it
  receives the bit count. On every other path \<^verbatim>\<open>*backLen\<close> and the buffer are as the caller
  left them; in particular an uninitialised \<^verbatim>\<open>*backLen\<close> stays uninitialised. After a
  Transceive that returned \<^verbatim>\<open>MI_OK\<close> it has a value.
\<close>

theorem backLen_written_only_on_receive:
  assumes "ToCard_issue h command sendData sendLen s = Some s1"
    and "ToCard_wait h (snd (irq_setup h command)) 2000 s1 = (i, fl, s2)"
    and "Read_MFRC522 (ErrorReg h) (ClearBitMask (BitFramingReg h) 0x80 s2) = (e, s3)"
    and "Read_MFRC522 (FIFOLevelReg h) s3 = (n, s4)"
    and "Read_MFRC522 (ControlReg h) s4 = (c, s5)"
    and "MFRC522_ToCard h command sendData sendLen backData backLen s = Some (st, bd, bl, s')"
  shows "(if command = PCD_TRANSCEIVE h \<and> i \<noteq> 0 \<and> e AND 0x1B = 0
          then bl = Some (recv_bits n (c AND 0x07))
          else bl = backLen \<and> bd = backData) \<and>
         (command = PCD_TRANSCEIVE h \<and> st = MI_OK \<longrightarrow> bl \<noteq> None)"
proof (cases "command = PCD_TRANSCEIVE h \<and> i \<noteq> 0 \<and> e AND 0x1B = 0")
  case True
  have "ToCard_receive h backData s3 \<noteq> None"
    using assms(1-3,6) True unfolding MFRC522_ToCard_def
    by (auto simp add: split_beta Let_def bind_eq_Some_conv)
  then have "length backData \<ge> unat (clamp_len h n)"
    using ToCard_receive_None [OF assms(4), of backData] by (meson not_le_imp_less)
  then have "ToCard_receive h backData s3 =
     Some (recv_bits n (c AND 0x07),
           read_bytes (FIFODataReg h) (unat (clamp_len h n)) s5 @ drop (unat (clamp_len h n)) backData,
           reads (FIFODataReg h) (unat (clamp_len h n)) s5)"
    by (rule ToCard_receive_eq [OF assms(4,5)])
  with assms(1-3,6) True show ?thesis
    unfolding MFRC522_ToCard_def
    by (auto simp add: split_beta Let_def)
next
  case False
  with assms(1-3,6) show ?thesis
    unfolding MFRC522_ToCard_def
    by (auto simp add: split_beta Let_def split: if_splits)
qed

theorem backLen_written_only_on_receive_witness:
  "\<exists>st s'. MFRC522_ToCard datasheet_h (PCD_AUTHENT datasheet_h) auth_frame 12 auth_frame None
     (flag_hw 39 0x10) = Some (st, auth_frame, None, s')"
proof -
  let ?h = datasheet_h
  let ?c = "PCD_AUTHENT ?h"
  let ?s1 = "the (ToCard_issue ?h ?c auth_frame 12 (flag_hw 39 0x10))"
  let ?w = "ToCard_wait ?h (snd (irq_setup ?h ?c)) 2000 ?s1"
  let ?r3 = "Read_MFRC522 (ErrorReg ?h) (ClearBitMask (BitFramingReg ?h) 0x80 (snd (snd ?w)))"
  let ?r4 = "Read_MFRC522 (FIFOLevelReg ?h) (snd ?r3)"
  let ?r5 = "Read_MFRC522 (ControlReg ?h) (snd ?r4)"
  have 1: "ToCard_issue ?h ?c auth_frame 12 (flag_hw 39 0x10) = Some ?s1"
    by (simp add: run_defs auth_frame_def)
  have 2: "?w = (fst ?w, fst (snd ?w), snd (snd ?w))"
    by (simp only: prod.collapse)
  have 3: "?r3 = (fst ?r3, snd ?r3)" and 4: "?r4 = (fst ?r4, snd ?r4)" and 5: "?r5 = (fst ?r5, snd ?r5)"
    by (simp_all only: prod.collapse)
  have "MFRC522_ToCard ?h ?c auth_frame 12 auth_frame None (flag_hw 39 0x10) \<noteq> None"
    by (simp add: run_defs flag_hw_def auth_frame_def)
  then obtain st bd bl s' where
    r: "MFRC522_ToCard ?h ?c auth_frame 12 auth_frame None (flag_hw 39 0x10) = Some (st, bd, bl, s')"
    by (metis not_None_eq prod_cases4)
  have c: "?c \<noteq> PCD_TRANSCEIVE ?h"
    by (simp add: datasheet_h_def)
  from backLen_written_only_on_receive [OF 1 2 3 4 5 r] c have "bl = None \<and> bd = auth_frame"
    by simp
  with r show ?thesis
    by blast
qed

text \<open>The driver only ever appends to the record of the bus.\<close>

lemma prefix_Write: "prefix (bus s) (bus (Write_MFRC522 a v s))"
  by (simp add: Write_MFRC522_eq)

lemma prefix_Read: "prefix (bus s) (bus (snd (Read_MFRC522 a s)))"
  by (simp add: Read_MFRC522_eq)

lemma prefix_SetBitMask: "prefix (bus s) (bus (SetBitMask a m s))"
  by (simp add: SetBitMask_def Read_MFRC522_eq Write_MFRC522_eq)

lemma prefix_ClearBitMask: "prefix (bus s) (bus (ClearBitMask a m s))"
  by (simp add: ClearBitMask_def Read_MFRC522_eq Write_MFRC522_eq)

lemma prefix_reads: "prefix (bus s) (bus (reads a k s))"
proof (induction k arbitrary: s)
  case 0
  show ?case by simp
next
  case (Suc k)
  have "prefix (bus s) (bus (snd (Read_MFRC522 a s)))"
    by (rule prefix_Read)
  also have "prefix \<dots> (bus (reads a k (snd (Read_MFRC522 a s))))"
    by (rule Suc.IH)
  finally show ?case by simp
qed

lemma prefix_fifo_write:
  "fifo_write h sendData sendLen i s = Some s' \<Longrightarrow> prefix (bus s) (bus s')"
proof (induction h sendData sendLen i s rule: fifo_write.induct)
  case (1 h sendData sendLen i s)
  show ?case
  proof (cases "i < unat sendLen")
    case True
    with "1.prems" obtain b where b: "load sendData i = Some b"
      and r: "fifo_write h sendData sendLen (i + 1) (Write_MFRC522 (FIFODataReg h) b s) = Some s'"
      by (subst (asm) fifo_write.simps) (auto split: option.splits)
    have "prefix (bus s) (bus (Write_MFRC522 (FIFODataReg h) b s))"
      by (rule prefix_Write)
    also have "prefix \<dots> (bus s')"
      by (rule "1.IH" [OF True b r])
    finally show ?thesis .
  next
    case False
    with "1.prems" show ?thesis
      by (subst (asm) fifo_write.simps) simp
  qed
qed

lemma prefix_issue:
  assumes "ToCard_issue h command sendData sendLen s = Some s'"
  shows "prefix (bus s) (bus s')"
proof -
  let ?s0 = "Write_MFRC522 (CommandReg h) (PCD_IDLE h)
    (SetBitMask (FIFOLevelReg h) 0x80 (ClearBitMask (CommIrqReg h) 0x80
      (Write_MFRC522 (CommIEnReg h) (fst (irq_setup h command) OR 0x80) s)))"
  from assms obtain s1 where f: "fifo_write h sendData sendLen 0 ?s0 = Some s1"
    and s': "s' = (if command = PCD_TRANSCEIVE h
        then SetBitMask (BitFramingReg h) 0x80 (Write_MFRC522 (CommandReg h) command s1)
        else Write_MFRC522 (CommandReg h) command s1)"
    unfolding ToCard_issue_def
    by (auto simp add: split_beta Let_def bind_eq_Some_conv)
  have "prefix (bus s) (bus ?s0)"
    by (meson prefix_Write prefix_SetBitMask prefix_ClearBitMask prefix_order.trans)
  also have "prefix \<dots> (bus s1)"
    by (rule prefix_fifo_write [OF f])
  also have "prefix \<dots> (bus s')"
  proof (cases "command = PCD_TRANSCEIVE h")
    case True
    have "prefix (bus s1) (bus (Write_MFRC522 (CommandReg h) command s1))"
      by (rule prefix_Write)
    also have "prefix \<dots> (bus (SetBitMask (BitFramingReg h) 0x80 (Write_MFRC522 (CommandReg h) command s1)))"
      by (rule prefix_SetBitMask)
    finally show ?thesis
      using True by (simp add: s')
  next
    case False
    then show ?thesis
      by (simp add: s' prefix_Write)
  qed
  finally show ?thesis .
qed

lemma prefix_wait: "prefix (bus s) (bus (snd (snd (ToCard_wait h waitIRq i s))))"
proof (induction h waitIRq i s rule: ToCard_wait_induct)
  case (1 h waitIRq i s)
  let ?c = "i - 1 \<noteq> 0 \<and> \<not> (fst (Read_MFRC522 (CommIrqReg h) s) AND 0x01 \<noteq> 0)
         \<and> \<not> (fst (Read_MFRC522 (CommIrqReg h) s) AND waitIRq \<noteq> 0)"
  show ?case
  proof (cases ?c)
    case True
    have eq: "ToCard_wait h waitIRq i s =
        ToCard_wait h waitIRq (i - 1) (snd (Read_MFRC522 (CommIrqReg h) s))"
      by (subst ToCard_wait_unfold, subst if_P [OF True], rule refl)
    have "prefix (bus s) (bus (snd (Read_MFRC522 (CommIrqReg h) s)))"
      by (rule prefix_Read)
    also have "prefix \<dots> (bus (snd (snd (ToCard_wait h waitIRq (i - 1) (snd (Read_MFRC522 (CommIrqReg h) s))))))"
      by (rule "1.IH" [OF True])
    finally show ?thesis
      unfolding eq .
  next
    case False
    have eq: "ToCard_wait h waitIRq i s = (i - 1, Read_MFRC522 (CommIrqReg h) s)"
      by (subst ToCard_wait_unfold, subst if_not_P [OF False], rule refl)
    show ?thesis
      unfolding eq by (simp add: prefix_Read)
  qed
qed

lemma prefix_receive:
  assumes "ToCard_receive h backData s = Some (bits, bd, s')"
  shows "prefix (bus s) (bus s')"
proof -
  let ?r1 = "Read_MFRC522 (FIFOLevelReg h) s"
  let ?r2 = "Read_MFRC522 (ControlReg h) (snd ?r1)"
  let ?n = "clamp_len h (fst ?r1)"
  have "\<not> length backData < unat ?n"
    using ToCard_receive_None [OF prod.collapse [symmetric], of backData h s] assms by auto
  then have "unat ?n \<le> length backData"
    by simp
  from ToCard_receive_eq [OF prod.collapse [symmetric] prod.collapse [symmetric] this] assms
  have s': "s' = reads (FIFODataReg h) (unat ?n) (snd ?r2)"
    by simp
  have "prefix (bus s) (bus (snd ?r2))"
    by (meson prefix_Read prefix_order.trans)
  also have "prefix \<dots> (bus s')"
    unfolding s' by (rule prefix_reads)
  finally show ?thesis .
qed

lemma prefix_ToCard_after_issue:
  assumes "MFRC522_ToCard h command sendData sendLen backData backLen s = Some (st, bd, bl, s')"
    and "ToCard_issue h command sendData sendLen s = Some s1"
  shows "prefix (bus s1) (bus s')"
proof -
  let ?s2 = "snd (snd (ToCard_wait h (snd (irq_setup h command)) 2000 s1))"
  let ?s3 = "ClearBitMask (BitFramingReg h) 0x80 ?s2"
  let ?s4 = "snd (Read_MFRC522 (ErrorReg h) ?s3)"
  have 1: "prefix (bus s1) (bus ?s3)"
    by (meson prefix_wait prefix_ClearBitMask prefix_order.trans)
  have 2: "prefix (bus s1) (bus ?s4)"
    by (meson 1 prefix_Read prefix_order.trans)
  from assms have "s' = ?s3 \<or> s' = ?s4 \<or> (\<exists>bits. ToCard_receive h backData ?s4 = Some (bits, bd, s'))"
    unfolding MFRC522_ToCard_def
    by (auto simp add: split_beta Let_def bind_eq_Some_conv split: if_splits)
  then show ?thesis
    using 1 2 by (meson prefix_receive prefix_order.trans)
qed

lemma prefix_ToCard:
  assumes "MFRC522_ToCard h command sendData sendLen backData backLen s = Some (st, bd, bl, s')"
  shows "prefix (bus s) (bus s')"
proof -
  from assms obtain s1 where i: "ToCard_issue h command sendData sendLen s = Some s1"
    unfolding MFRC522_ToCard_def by (auto simp add: split_beta bind_eq_Some_conv)
  have "prefix (bus s) (bus s1)"
    by (rule prefix_issue [OF i])
  also have "prefix \<dots> (bus s')"
    by (rule prefix_ToCard_after_issue [OF assms i])
  finally show ?thesis .
qed

section \<open>Card discovery: request and anticollision\<close>

lemma ToCard_transceive_OK_bits:
  assumes "MFRC522_ToCard h (PCD_TRANSCEIVE h) sendData sendLen backData backLen s =
     Some (MI_OK, bd, bl, s')"
  shows "bl \<noteq> None"
  using assms unfolding MFRC522_ToCard_def
  by (auto simp add: split_beta Let_def bind_eq_Some_conv split: if_splits)

lemma request_issue_bus:
  assumes "PCD_AUTHENT h \<noteq> PCD_TRANSCEIVE h" and "TagType \<noteq> []"
  shows "\<exists>s1. ToCard_issue h (PCD_TRANSCEIVE h) (TagType[0 := reqMode]) 1
            (Write_MFRC522 (BitFramingReg h) 0x07 s) = Some s1 \<and>
     bus s1 = bus s @ write_frame (BitFramingReg h) 0x07
        @ write_frame (CommIEnReg h) 0xF7
        @ read_frame (CommIrqReg h) @ write_frame (CommIrqReg h) (miso s (nxfer s + 5) AND NOT 0x80)
        @ read_frame (FIFOLevelReg h) @ write_frame (FIFOLevelReg h) (miso s (nxfer s + 9) OR 0x80)
        @ write_frame (CommandReg h) (PCD_IDLE h)
        @ write_frame (FIFODataReg h) reqMode
        @ write_frame (CommandReg h) (PCD_TRANSCEIVE h)
        @ read_frame (BitFramingReg h) @ write_frame (BitFramingReg h) (miso s (nxfer s + 19) OR 0x80)"
proof -
  have l: "load (TagType[0 := reqMode]) 0 = Some reqMode"
    using assms(2) by (simp add: load_def)
  have f: "fifo_write h (TagType[0 := reqMode]) 1 0 s0 = Some (Write_MFRC522 (FIFODataReg h) reqMode s0)" for s0
    by (simp add: fifo_write.simps [of _ _ _ 0] fifo_write.simps [of _ _ _ "Suc 0"] l)
  show ?thesis
    using assms(1)
    by (simp add: ToCard_issue_def irq_setup_def f SetBitMask_def ClearBitMask_def
        Read_MFRC522_eq Write_MFRC522_eq write_frame_def read_frame_def eval_nat_numeral)
qed

text \<open>
  C8. \<^verbatim>\<open>MFRC522_Request\<close> first writes \<open>0x07\<close> to the bit framing register (seven bits
  of the last byte are sent), then runs a Transceive exchange whose only FIFO byte is the
  request mode: the bus record of the hardware it returns begins, after what was there
  before the call, with exactly these register accesses up to the start of the
  transmission. It returns \<^verbatim>\<open>MI_OK\<close> exactly when the exchange returned \<^verbatim>\<open>MI_OK\<close> with a
  bit count of 16; in every other case it returns \<^verbatim>\<open>MI_ERR\<close>.
\<close>

theorem request_outcome:
  assumes "PCD_AUTHENT h \<noteq> PCD_TRANSCEIVE h"
    and "TagType \<noteq> []"
    and "MFRC522_ToCard h (PCD_TRANSCEIVE h) (TagType[0 := reqMode]) 1 (TagType[0 := reqMode]) None
           (Write_MFRC522 (BitFramingReg h) 0x07 s) = Some (st, tag, bits, s')"
  shows "MFRC522_Request h reqMode TagType s =
           Some (if st = MI_OK \<and> bits = Some 0x10 then MI_OK else MI_ERR, tag, s') \<and>
         prefix (bus s @ write_frame (BitFramingReg h) 0x07
              @ write_frame (CommIEnReg h) 0xF7
              @ read_frame (CommIrqReg h)
              @ write_frame (CommIrqReg h) (miso s (nxfer s + 5) AND NOT 0x80)
              @ read_frame (FIFOLevelReg h)
              @ write_frame (FIFOLevelReg h) (miso s (nxfer s + 9) OR 0x80)
              @ write_frame (CommandReg h) (PCD_IDLE h)
              @ write_frame (FIFODataReg h) reqMode
              @ write_frame (CommandReg h) (PCD_TRANSCEIVE h)
              @ read_frame (BitFramingReg h)
              @ write_frame (BitFramingReg h) (miso s (nxfer s + 19) OR 0x80))
           (bus s')"
proof
  have st: "store TagType 0 reqMode = Some (TagType[0 := reqMode])"
    using assms(2) by (simp add: store_def)
  have "bits \<noteq> None" if "st = MI_OK"
    using ToCard_transceive_OK_bits assms(3) that by blast
  then show "MFRC522_Request h reqMode TagType s =
      Some (if st = MI_OK \<and> bits = Some 0x10 then MI_OK else MI_ERR, tag, s')"
    unfolding MFRC522_Request_def
    by (cases bits) (auto simp add: st assms(3))
next
  from request_issue_bus [OF assms(1,2), where reqMode = reqMode and s = s] obtain s1 where
    i: "ToCard_issue h (PCD_TRANSCEIVE h) (TagType[0 := reqMode]) 1
          (Write_MFRC522 (BitFramingReg h) 0x07 s) = Some s1"
    and b: "bus s1 = bus s @ write_frame (BitFramingReg h) 0x07
              @ write_frame (CommIEnReg h) 0xF7
              @ read_frame (CommIrqReg h)
              @ write_frame (CommIrqReg h) (miso s (nxfer s + 5) AND NOT 0x80)
              @ read_frame (FIFOLevelReg h)
              @ write_frame (FIFOLevelReg h) (miso s (nxfer s + 9) OR 0x80)
              @ write_frame (CommandReg h) (PCD_IDLE h)
              @ write_frame (FIFODataReg h) reqMode
              @ write_frame (CommandReg h) (PCD_TRANSCEIVE h)
              @ read_frame (BitFramingReg h)
              @ write_frame (BitFramingReg h) (miso s (nxfer s + 19) OR 0x80)"
    by blast
  from prefix_ToCard_after_issue [OF assms(3) i] show "prefix (bus s @ write_frame (BitFramingReg h) 0x07
              @ write_frame (CommIEnReg h) 0xF7
              @ read_frame (CommIrqReg h)
              @ write_frame (CommIrqReg h) (miso s (nxfer s + 5) AND NOT 0x80)
              @ read_frame (FIFOLevelReg h)
              @ write_frame (FIFOLevelReg h) (miso s (nxfer s + 9) OR 0x80)
              @ write_frame (CommandReg h) (PCD_IDLE h)
              @ write_frame (FIFODataReg h) reqMode
              @ write_frame (CommandReg h) (PCD_TRANSCEIVE h)
              @ read_frame (BitFramingReg h)
              @ write_frame (BitFramingReg h) (miso s (nxfer s + 19) OR 0x80))
           (bus s')"
    unfolding b .
qed

lemma request_run:
  "map_option (\<lambda>(st, tag, bits, s). (st, tag, bits))
     (MFRC522_ToCard datasheet_h (PCD_TRANSCEIVE datasheet_h) [0x26, 0] 1 [0x26, 0] None
        (Write_MFRC522 (BitFramingReg datasheet_h) 0x07 request_hw)) = Some (MI_OK, [0x04, 0x00], Some 16)"
  by (simp add: run_defs request_hw_def)

theorem request_outcome_witness:
  "\<exists>s'. MFRC522_Request datasheet_h (PICC_REQIDL datasheet_h) [0, 0] request_hw =
     Some (MI_OK, [0x04, 0x00], s')"
proof -
  let ?h = datasheet_h
  have d: "PCD_AUTHENT ?h \<noteq> PCD_TRANSCEIVE ?h" and q: "PICC_REQIDL ?h = 0x26"
    by (simp_all add: datasheet_h_def)
  have e: "[0, 0 :: uchar] \<noteq> []"
    by simp
  from request_run obtain s' where
    r: "MFRC522_ToCard ?h (PCD_TRANSCEIVE ?h) ([0, 0][0 := PICC_REQIDL ?h]) 1 ([0, 0][0 := PICC_REQIDL ?h]) None
        (Write_MFRC522 (BitFramingReg ?h) 0x07 request_hw) = Some (MI_OK, [0x04, 0x00], Some 16, s')"
    by (auto simp add: q)
  from request_outcome [OF d e r] show ?thesis
    by auto
qed


lemma serNum_xor_eq:
  "serNum_xor (u0 # u1 # u2 # u3 # c # rest) 0 0 = Some (4, u0 XOR u1 XOR u2 XOR u3)"
  by (simp add: serNum_xor.simps [of _ 0] serNum_xor.simps [of _ "Suc 0"]
      serNum_xor.simps [of _ "Suc (Suc 0)"] serNum_xor.simps [of _ "Suc (Suc (Suc 0))"]
      serNum_xor.simps [of _ "Suc (Suc (Suc (Suc 0)))"] load_def xor.assoc)

text \<open>
  C5. When the exchange of \<^verbatim>\<open>MFRC522_Anticoll\<close> leaves the bytes \<open>u0, u1, u2, u3, c\<close> at the
  front of the buffer, the call returns \<^verbatim>\<open>MI_OK\<close> exactly when the exchange returned \<^verbatim>\<open>MI_OK\<close>
  and \<open>c = u0 XOR u1 XOR u2 XOR u3\<close>; an exchange that returned \<^verbatim>\<open>MI_OK\<close> with another
  \<open>c\<close> gives \<^verbatim>\<open>MI_ERR\<close>.
\<close>

theorem anticoll_outcome:
  assumes "2 \<le> length serNum"
    and "MFRC522_ToCard h (PCD_TRANSCEIVE h) (serNum[0 := PICC_ANTICOLL h, 1 := 0x20]) 2
           (serNum[0 := PICC_ANTICOLL h, 1 := 0x20]) None
           (Write_MFRC522 (BitFramingReg h) 0x00 s) = Some (st, u0 # u1 # u2 # u3 # c # rest, unLen, s')"
  shows "\<exists>r. MFRC522_Anticoll h serNum s = Some (r, u0 # u1 # u2 # u3 # c # rest, s') \<and>
           (r = MI_OK \<longleftrightarrow> st = MI_OK \<and> c = u0 XOR u1 XOR u2 XOR u3) \<and>
           (st = MI_OK \<and> c \<noteq> u0 XOR u1 XOR u2 XOR u3 \<longrightarrow> r = MI_ERR)"
proof -
  have s0: "store serNum 0 (PICC_ANTICOLL h) = Some (serNum[0 := PICC_ANTICOLL h])"
    and s1: "store (serNum[0 := PICC_ANTICOLL h]) 1 0x20 = Some (serNum[0 := PICC_ANTICOLL h, 1 := 0x20])"
    using assms(1) by (auto simp add: store_def)
  have l: "load (u0 # u1 # u2 # u3 # c # rest) 4 = Some c"
    by (simp add: load_def)
  show ?thesis
    unfolding MFRC522_Anticoll_def
    using s0 s1 assms(2) by (simp add: serNum_xor_eq l)
qed

lemma anticoll_run:
  "map_option (\<lambda>(st, sn, bits, s). (st, sn))
     (MFRC522_ToCard datasheet_h (PCD_TRANSCEIVE datasheet_h) [0x93, 0x20, 0, 0, 0, 0, 0, 0, 0, 0] 2
        [0x93, 0x20, 0, 0, 0, 0, 0, 0, 0, 0] None
        (Write_MFRC522 (BitFramingReg datasheet_h) 0x00 anticoll_hw)) =
   Some (MI_OK, [0x12, 0x34, 0x56, 0x78, 0x08, 0, 0, 0, 0, 0])"
  by (simp add: run_defs anticoll_hw_def)

theorem anticoll_outcome_witness:
  "\<exists>s'. MFRC522_Anticoll datasheet_h (replicate 10 0) anticoll_hw =
     Some (MI_OK, [0x12, 0x34, 0x56, 0x78, 0x08, 0, 0, 0, 0, 0], s')"
proof -
  let ?h = datasheet_h
  have q: "PICC_ANTICOLL ?h = 0x93"
    by (simp add: datasheet_h_def)
  have e: "2 \<le> length (replicate 10 (0 :: uchar))"
    by simp
  have b: "(replicate 10 0)[0 := PICC_ANTICOLL ?h, 1 := 0x20] = [0x93, 0x20, 0, 0, 0, 0, 0, 0, 0, 0 :: uchar]"
    by (simp add: q eval_nat_numeral)
  from anticoll_run obtain unLen s' where
    r: "MFRC522_ToCard ?h (PCD_TRANSCEIVE ?h) ((replicate 10 0)[0 := PICC_ANTICOLL ?h, 1 := 0x20]) 2
        ((replicate 10 0)[0 := PICC_ANTICOLL ?h, 1 := 0x20]) None
        (Write_MFRC522 (BitFramingReg ?h) 0x00 anticoll_hw) =
        Some (MI_OK, 0x12 # 0x34 # 0x56 # 0x78 # 0x08 # [0, 0, 0, 0, 0], unLen, s')"
    unfolding b by auto
  from anticoll_outcome [OF e r] show ?thesis
    by auto
qed

section \<open>The acquisition cycle\<close>

lemma replicate_2: "replicate 2 x = [x, x]"
  by (simp add: eval_nat_numeral)

lemma replicate_10: "replicate 10 x = [x, x, x, x, x, x, x, x, x, x]"
  by (simp add: eval_nat_numeral)

lemmas cycle_defs = run_defs MFRC522_Request_def MFRC522_Anticoll_def serNum_xor.simps
  RC522_Task_cycle_def osMessageQueuePut_def display_rc522_info_queue_def osMessageQueueNew_def
  RC522_QUEUE_SIZE_def RC522_STATUS_SUCCESS_def RC522_STATUS_UNSUCCESSFUL_def
  replicate_2 replicate_10 Let_def


lemma length_read_bytes [simp]: "length (read_bytes a k s) = k"
  by (induction k arbitrary: s) simp_all

lemma fifo_read_length:
  assumes "fifo_read h n 0 backData s = Some (bd, s')"
  shows "length bd = length backData"
proof (cases "unat n \<le> length backData")
  case True
  from fifo_read_eq [OF True, of 0 h s] assms show ?thesis
    using True by auto
next
  case False
  then have "fifo_read h n 0 backData s = None"
    by (intro fifo_read_None) simp_all
  with assms show ?thesis
    by simp
qed

lemma ToCard_length:
  assumes "MFRC522_ToCard h command sendData sendLen backData backLen s = Some (st, bd, bl, s')"
  shows "length bd = length backData"
  using assms unfolding MFRC522_ToCard_def ToCard_receive_def
  by (auto simp add: split_beta Let_def bind_eq_Some_conv split: if_splits dest: fifo_read_length)

lemma Request_length:
  assumes "MFRC522_Request h reqMode TagType s = Some (st, tag, s')"
  shows "length tag = length TagType"
  using assms unfolding MFRC522_Request_def store_def
  by (auto simp add: bind_eq_Some_conv split: if_splits option.splits dest!: ToCard_length)


lemma prefix_Anticoll:
  assumes "MFRC522_Anticoll h serNum s = Some (st, sn, s')"
  shows "prefix (bus s @ write_frame (BitFramingReg h) 0x00) (bus s')"
proof -
  from assms obtain a b c d where
    "MFRC522_ToCard h (PCD_TRANSCEIVE h) a 2 a None (Write_MFRC522 (BitFramingReg h) 0x00 s) =
       Some (b, c, d, s')"
    unfolding MFRC522_Anticoll_def
    by (auto simp add: bind_eq_Some_conv)
  from prefix_ToCard [OF this] show ?thesis
    by (simp add: Write_MFRC522_eq write_frame_def)
qed


text \<open>
  The cycle, when both driver calls stay inside their arrays. (They need not: the request
  is given the two bytes of \<^verbatim>\<open>tagType\<close>, and the exchange stores as many bytes as the chip
  reports, up to \<^verbatim>\<open>MAX_LEN\<close>.)
\<close>

lemma request_overrun_example:
  "MFRC522_Request datasheet_h (PICC_REQIDL datasheet_h) (replicate 2 0)
     (chip [(23, 0x30), (31, 3)]) = None"
  by (simp add: cycle_defs)

lemma cycle_eq:
  assumes "MFRC522_Request h (PICC_REQIDL h) (replicate 2 0) s = Some (req_status, tag, s1)"
    and "MFRC522_Anticoll h (replicate 10 0) s1 = Some (anticoll_status, serNum, s2)"
    and "d = \<lparr>uid = serNum,
               uid_length = (if req_status = MI_OK \<and> anticoll_status = MI_OK then 4 else 0),
               tagType = [tag ! 0, tag ! 1],
               status = (if req_status = MI_OK \<and> anticoll_status = MI_OK
                         then RC522_STATUS_SUCCESS else RC522_STATUS_UNSUCCESSFUL)\<rparr>"
  shows "RC522_Task_cycle h s q = Some (d, s2, snd (osMessageQueuePut q d))"
proof -
  have "length tag = 2"
    using Request_length [OF assms(1)] by simp
  then have l: "load tag 0 = Some (tag ! 0)" "load tag 1 = Some (tag ! 1)"
    by (simp_all add: load_def)
  show ?thesis
    unfolding RC522_Task_cycle_def
    using assms(1,2) l by (simp add: assms(3) split_beta Let_def replicate_2)
qed

text \<open>
  C1 as stated fails. No card is in the field: in the request exchange the first read of the
  interrupt flags shows the timer flag, and \<^verbatim>\<open>MFRC522_Request\<close> returns \<^verbatim>\<open>MI_ERR\<close> after 36
  transfers, that is 72 events on the bus. The cycle goes on to 74 transfers, and what it
  puts on the bus after the request is the anticollision exchange: \<open>0x00\<close> to the bit
  framing register, the bytes \<open>0x93, 0x20\<close> to the FIFO, the Transceive command.
\<close>

theorem failed_request_counterexample:
  "map_option fst (MFRC522_Request datasheet_h (PICC_REQIDL datasheet_h) (replicate 2 0) no_card_hw)
     = Some MI_ERR \<and>
   map_option (nxfer \<circ> snd \<circ> snd)
     (MFRC522_Request datasheet_h (PICC_REQIDL datasheet_h) (replicate 2 0) no_card_hw) = Some 36 \<and>
   map_option (nxfer \<circ> fst \<circ> snd) (RC522_Task_cycle datasheet_h no_card_hw display_rc522_info_queue)
     = Some 74 \<and>
   map_option (take 44 \<circ> drop 72 \<circ> bus \<circ> fst \<circ> snd)
     (RC522_Task_cycle datasheet_h no_card_hw display_rc522_info_queue) =
     Some (write_frame (BitFramingReg datasheet_h) 0x00
       @ write_frame (CommIEnReg datasheet_h) 0xF7
       @ read_frame (CommIrqReg datasheet_h) @ write_frame (CommIrqReg datasheet_h) 0x00
       @ read_frame (FIFOLevelReg datasheet_h) @ write_frame (FIFOLevelReg datasheet_h) 0x80
       @ write_frame (CommandReg datasheet_h) (PCD_IDLE datasheet_h)
       @ write_frame (FIFODataReg datasheet_h) (PICC_ANTICOLL datasheet_h)
       @ write_frame (FIFODataReg datasheet_h) 0x20
       @ write_frame (CommandReg datasheet_h) (PCD_TRANSCEIVE datasheet_h)
       @ read_frame (BitFramingReg datasheet_h))"
  by (simp add: cycle_defs no_card_hw_def write_frame_def read_frame_def)

text \<open>
  C1, amended. In every cycle in which \<^verbatim>\<open>MFRC522_Request\<close> does not return \<^verbatim>\<open>MI_OK\<close> the
  record is finalised with status unsuccessful and UID length 0. \<^verbatim>\<open>MFRC522_Anticoll\<close> is
  called all the same: the hardware the cycle leaves is the one the anticollision call
  leaves, and its bus record continues that of the request with the write of \<open>0x00\<close> to
  the bit framing register.
\<close>

theorem failed_request_cycle:
  assumes "MFRC522_Request h (PICC_REQIDL h) (replicate 2 0) s = Some (req_status, tag, s1)"
    and "req_status \<noteq> MI_OK"
    and "MFRC522_Anticoll h (replicate 10 0) s1 = Some (anticoll_status, serNum, s2)"
  shows "\<exists>d. RC522_Task_cycle h s q = Some (d, s2, snd (osMessageQueuePut q d)) \<and>
           status d = RC522_STATUS_UNSUCCESSFUL \<and> uid_length d = 0 \<and>
           prefix (bus s1 @ write_frame (BitFramingReg h) 0x00) (bus s2)"
  using cycle_eq [OF assms(1,3) refl] assms(2) prefix_Anticoll [OF assms(3)]
  by simp

theorem failed_request_cycle_witness:
  "\<exists>d s2 q. RC522_Task_cycle datasheet_h no_card_hw display_rc522_info_queue = Some (d, s2, q) \<and>
     status d = RC522_STATUS_UNSUCCESSFUL \<and> uid_length d = 0"
proof -
  let ?h = datasheet_h
  let ?r = "the (MFRC522_Request ?h (PICC_REQIDL ?h) (replicate 2 0) no_card_hw)"
  let ?a = "the (MFRC522_Anticoll ?h (replicate 10 0) (snd (snd ?r)))"
  have 1: "MFRC522_Request ?h (PICC_REQIDL ?h) (replicate 2 0) no_card_hw =
      Some (fst ?r, fst (snd ?r), snd (snd ?r))"
    by (simp add: cycle_defs no_card_hw_def)
  have 2: "fst ?r \<noteq> MI_OK"
    by (simp add: cycle_defs no_card_hw_def)
  have 3: "MFRC522_Anticoll ?h (replicate 10 0) (snd (snd ?r)) =
      Some (fst ?a, fst (snd ?a), snd (snd ?a))"
    by (simp add: cycle_defs no_card_hw_def)
  from failed_request_cycle [OF 1 2 3, of display_rc522_info_queue] show ?thesis
    by blast
qed

text \<open>
  C2. The record a cycle builds and passes to \<^verbatim>\<open>osMessageQueuePut\<close> has status successful
  and UID length 4 exactly when \<^verbatim>\<open>MFRC522_Request\<close> and \<^verbatim>\<open>MFRC522_Anticoll\<close> both returned
  \<^verbatim>\<open>MI_OK\<close>; in every other case it has status unsuccessful and UID length 0. So the UID
  length is 0 or 4.
\<close>

theorem cycle_record:
  assumes "MFRC522_Request h (PICC_REQIDL h) (replicate 2 0) s = Some (req_status, tag, s1)"
    and "MFRC522_Anticoll h (replicate 10 0) s1 = Some (anticoll_status, serNum, s2)"
  shows "\<exists>d. RC522_Task_cycle h s q = Some (d, s2, snd (osMessageQueuePut q d)) \<and>
           (status d = RC522_STATUS_SUCCESS \<and> uid_length d = 4
              \<longleftrightarrow> req_status = MI_OK \<and> anticoll_status = MI_OK) \<and>
           (\<not> (req_status = MI_OK \<and> anticoll_status = MI_OK)
              \<longrightarrow> status d = RC522_STATUS_UNSUCCESSFUL \<and> uid_length d = 0) \<and>
           (uid_length d = 0 \<or> uid_length d = 4)"
  using cycle_eq [OF assms refl]
  by (simp add: RC522_STATUS_SUCCESS_def RC522_STATUS_UNSUCCESSFUL_def)

theorem cycle_record_witness:
  "\<exists>s2. RC522_Task_cycle datasheet_h scenario_A_hw display_rc522_info_queue =
     Some (\<lparr>uid = [0x12, 0x34, 0x56, 0x78, 0x08, 0, 0, 0, 0, 0], uid_length = 4,
             tagType = [0x04, 0x00], status = RC522_STATUS_SUCCESS\<rparr>, s2,
           \<lparr>msg_count = 3, msgs = [\<lparr>uid = [0x12, 0x34, 0x56, 0x78, 0x08, 0, 0, 0, 0, 0],
             uid_length = 4, tagType = [0x04, 0x00], status = RC522_STATUS_SUCCESS\<rparr>]\<rparr>)"
proof -
  let ?h = datasheet_h
  let ?r = "the (MFRC522_Request ?h (PICC_REQIDL ?h) (replicate 2 0) scenario_A_hw)"
  let ?a = "the (MFRC522_Anticoll ?h (replicate 10 0) (snd (snd ?r)))"
  have 1: "MFRC522_Request ?h (PICC_REQIDL ?h) (replicate 2 0) scenario_A_hw =
      Some (MI_OK, [0x04, 0x00], snd (snd ?r))"
    by (simp add: cycle_defs scenario_A_hw_def)
  have 2: "MFRC522_Anticoll ?h (replicate 10 0) (snd (snd ?r)) =
      Some (MI_OK, [0x12, 0x34, 0x56, 0x78, 0x08, 0, 0, 0, 0, 0], snd (snd ?a))"
    by (simp add: cycle_defs scenario_A_hw_def)
  from cycle_record [OF 1 2, of display_rc522_info_queue] obtain d where
    c: "RC522_Task_cycle ?h scenario_A_hw display_rc522_info_queue =
        Some (d, snd (snd ?a), snd (osMessageQueuePut display_rc522_info_queue d))"
    and d: "status d = RC522_STATUS_SUCCESS \<and> uid_length d = 4"
    by auto
  have "d = \<lparr>uid = [0x12, 0x34, 0x56, 0x78, 0x08, 0, 0, 0, 0, 0], uid_length = 4,
             tagType = [0x04, 0x00], status = RC522_STATUS_SUCCESS\<rparr>"
    using c cycle_eq [OF 1 2 refl, of display_rc522_info_queue] by simp
  with c show ?thesis
    by (simp add: osMessageQueuePut_def display_rc522_info_queue_def osMessageQueueNew_def
        RC522_QUEUE_SIZE_def)
qed


text \<open>
  C9. The cycle hands its record to the queue once, with timeout 0. On the queue of
  \<^verbatim>\<open>RC522_QUEUE_SIZE\<close> = 3 slots: when three records are pending the cycle ends with the
  queue exactly as it was, the new record dropped and the three pending ones in place and
  in order; with fewer pending the record is appended behind them. In both cases the cycle
  runs to its end, the \<^verbatim>\<open>osDelay\<close>.
\<close>

theorem full_channel_drops_record:
  assumes "MFRC522_Request h (PICC_REQIDL h) (replicate 2 0) s = Some (req_status, tag, s1)"
    and "MFRC522_Anticoll h (replicate 10 0) s1 = Some (anticoll_status, serNum, s2)"
    and "msg_count q = RC522_QUEUE_SIZE"
    and "length (msgs q) \<le> msg_count q"
  shows "\<exists>d. RC522_Task_cycle h s q =
           Some (d, s2, if length (msgs q) = 3 then q else q\<lparr>msgs := msgs q @ [d]\<rparr>)"
  using cycle_eq [OF assms(1,2) refl, of q] assms(3,4)
  by (auto simp add: osMessageQueuePut_def RC522_QUEUE_SIZE_def)

theorem full_channel_drops_record_witness:
  "length (msgs full_queue) = 3 \<and>
   (\<exists>d s2. RC522_Task_cycle datasheet_h no_card_hw full_queue = Some (d, s2, full_queue))"
proof -
  let ?h = datasheet_h
  let ?r = "the (MFRC522_Request ?h (PICC_REQIDL ?h) (replicate 2 0) no_card_hw)"
  let ?a = "the (MFRC522_Anticoll ?h (replicate 10 0) (snd (snd ?r)))"
  have 1: "MFRC522_Request ?h (PICC_REQIDL ?h) (replicate 2 0) no_card_hw =
      Some (fst ?r, fst (snd ?r), snd (snd ?r))"
    by (simp add: cycle_defs no_card_hw_def)
  have 2: "MFRC522_Anticoll ?h (replicate 10 0) (snd (snd ?r)) =
      Some (fst ?a, fst (snd ?a), snd (snd ?a))"
    by (simp add: cycle_defs no_card_hw_def)
  have 3: "msg_count full_queue = RC522_QUEUE_SIZE" and 4: "length (msgs full_queue) = 3"
    by (simp_all add: full_queue_def osMessageQueuePut_def display_rc522_info_queue_def
        osMessageQueueNew_def RC522_QUEUE_SIZE_def)
  have 5: "length (msgs full_queue) \<le> msg_count full_queue"
    by (simp add: 3 4 RC522_QUEUE_SIZE_def)
  from full_channel_drops_record [OF 1 2 3 5] 4 show ?thesis
    by auto
qed

end
